theory Spec2Isabelle
  imports Main "HOL-Library.Sublist"
begin

section \<open>The test isolation cache of tools/isolate/run_test_from_archive.py\<close>

text \<open>
  The script keeps a directory of content-addressed blobs in LRU order, maps the files of
  a manifest into a scratch directory, runs the manifest's command there and removes the
  scratch directory. Everything it does is an effect on the file system, so the model
  passes an explicit \<open>world\<close>: the file tree, the data of the regular files, what the
  platform and the environment answer, and a trace of the calls that leave the process
  (logging, fetches, spawned commands, sleeps).

  Conventions of the model.
  \<^item> Exceptions are values: a call returns \<open>error + 'a\<close> together with the world (and the
    cache object) as the exception leaves them, so that \<open>finally\<close> blocks and context
    managers can run on what is left.
  \<^item> \<open>os.path\<close> is \<open>posixpath\<close>, the module the name stands for on every platform but
    Windows, where it is \<open>ntpath\<close> (drive letters, the backslash as a second separator),
    which is not modelled. The field \<open>win32\<close> of a world only decides the tests of
    \<open>sys.platform\<close> the script makes itself. A statement about where a path built by
    \<open>os.path.join\<close> lies is therefore given for worlds with \<open>win32 = False\<close> only.
  \<^item> Paths are compared as strings: \<open>.\<close>, \<open>..\<close> and repeated slashes are not normalised
    by the tree.
  \<^item> Permission bits and wall-clock time are not part of the world. \<open>os.chmod\<close> and
    \<open>_set_write_bit\<close> are modelled by when they raise; the \<open>Profiler\<close> and
    \<open>time_retrieving_files\<close> only measure time and are left out.
  \<^item> Exceptions carry no message text.
\<close>

subsection \<open>Exceptions and the trace\<close>

datatype error =
    ValueError | MappingError | OSError | IOError | AssertionError | IndexError
  | ShutilError | SystemExit

type_synonym 'a result = "error + 'a"

text \<open>\<open>class MappingError(OSError)\<close>: an \<open>except OSError\<close> clause catches both.\<close>

definition is_OSError :: "error \<Rightarrow> bool" where
  "is_OSError e = (e = OSError \<or> e = MappingError)"

datatype level = DEBUG | INFO | WARN | ERROR

datatype event =
    Log level string
  | Fetch string string
  | Spawn "string list" string
  | Sleep nat
  | Stderr string

subsection \<open>Paths (posixpath)\<close>

type_synonym path = string

definition slash :: char where
  "slash = CHR ''/''"

definition isabs :: "path \<Rightarrow> bool" where
  "isabs p = (case p of [] \<Rightarrow> False | c # _ \<Rightarrow> c = slash)"

text \<open>\<open>posixpath.join\<close> of two components: an absolute second component replaces the
  first. This is \<open>os.path.join\<close> where \<open>sys.platform\<close> is not \<open>win32\<close>.\<close>

definition os_path_join :: "path \<Rightarrow> string \<Rightarrow> path" where
  "os_path_join a b =
     (if isabs b then b
      else if a = [] \<or> last a = slash then a @ b
      else a @ [slash] @ b)"

definition rstrip :: "char \<Rightarrow> string \<Rightarrow> string" where
  "rstrip ch s = rev (dropWhile (\<lambda>c. c = ch) (rev s))"

text \<open>\<open>posixpath.split\<close>: the head is everything up to the last slash, with trailing
  slashes stripped unless it consists of slashes only.\<close>

definition os_path_split :: "path \<Rightarrow> path \<times> string" where
  "os_path_split p =
     (let tail = rev (takeWhile (\<lambda>c. c \<noteq> slash) (rev p));
          head = rev (dropWhile (\<lambda>c. c \<noteq> slash) (rev p))
      in (if head \<noteq> [] \<and> \<not> list_all (\<lambda>c. c = slash) head then rstrip slash head else head,
          tail))"

definition dirname :: "path \<Rightarrow> path" where
  "dirname p = fst (os_path_split p)"

definition basename :: "path \<Rightarrow> string" where
  "basename p = snd (os_path_split p)"

definition endswith :: "string \<Rightarrow> string \<Rightarrow> bool" where
  "endswith s suf = (length suf \<le> length s \<and> drop (length s - length suf) s = suf)"

definition startswith :: "string \<Rightarrow> string \<Rightarrow> bool" where
  "startswith s pre = (take (length pre) s = pre)"

subsection \<open>The world\<close>

text \<open>
  A path of the tree holds a directory, a regular file (by inode number, so that hard
  links share their data) or a symbolic link (its target text). \<open>Unreadable\<close> stands for
  a file whose \<open>open\<close> for reading raises IOError; \<open>Malformed\<close> for bytes that
  \<open>json.load\<close> rejects with ValueError; \<open>Doc xs\<close> for a JSON array of the strings \<open>xs\<close>,
  the only JSON the cache writes; \<open>Blob\<close> for any other readable data.
\<close>

datatype node = Dir | Reg nat | Sym string

datatype contents = Doc "string list" | Malformed | Unreadable | Blob

record filedata =
  st_size :: nat
  contents :: contents

text \<open>
  The manifest is a JSON object; each key may be absent. \<open>files\<close> is kept as a list of
  pairs, in the order \<open>iteritems\<close> yields them. What \<open>json.load(open_remote(ref))\<close>
  gives for a reference is an answer of the environment: IOError, ValueError, or a
  manifest (JSON that is not an object is outside the model).
\<close>

record properties =
  sha_1 :: "string option"
  link :: "string option"
  mode :: "nat option"

record manifest =
  files :: "(string \<times> properties) list option"
  command :: "string list option"
  relative_cwd :: "string option"
  read_only :: "bool option"

datatype manifest_load = Unreachable | NotJson | Loaded manifest

record world =
  win32 :: bool
  has_lchmod :: bool
  nodes :: "(path \<times> node) list"
  inodes :: "nat \<Rightarrow> filedata"
  dir_size :: nat
  st_dev :: "path \<Rightarrow> nat"
  free_bytes :: "path \<Rightarrow> (path \<times> node) list \<Rightarrow> nat"
  http :: "string \<Rightarrow> filedata option"
  manifest_at :: "string \<Rightarrow> manifest_load"
  getcwd :: path
  tempdir :: path
  tmp_names :: "string list"
  executable :: string
  rmtree_failures :: nat
  child :: "string list \<Rightarrow> path \<Rightarrow> (path \<times> node) list \<Rightarrow> (int \<times> (path \<times> node) list) option"
  trace :: "event list"

definition emit :: "event \<Rightarrow> world \<Rightarrow> world" where
  "emit e w = w\<lparr>trace := trace w @ [e]\<rparr>"

definition logging :: "level \<Rightarrow> string \<Rightarrow> world \<Rightarrow> world" where
  "logging l msg w = emit (Log l msg) w"

subsection \<open>File system primitives\<close>

definition os_lstat :: "world \<Rightarrow> path \<Rightarrow> node option" where
  "os_lstat w p = map_of (nodes w) p"

text \<open>Following symbolic links, at most \<open>n\<close> of them; a relative target is taken from
  the directory of the link. \<open>None\<close> is ELOOP.\<close>

fun resolve :: "nat \<Rightarrow> (path \<times> node) list \<Rightarrow> path \<Rightarrow> path option" where
  "resolve 0 ns p = None"
| "resolve (Suc n) ns p =
     (case map_of ns p of
        Some (Sym t) \<Rightarrow> resolve n ns (os_path_join (dirname p) t)
      | _ \<Rightarrow> Some p)"

definition maxsymlinks :: nat where
  "maxsymlinks = 40"

definition os_stat :: "world \<Rightarrow> path \<Rightarrow> node option" where
  "os_stat w p =
     (case resolve maxsymlinks (nodes w) p of
        None \<Rightarrow> None
      | Some q \<Rightarrow> map_of (nodes w) q)"

definition os_path_exists :: "world \<Rightarrow> path \<Rightarrow> bool" where
  "os_path_exists w p = (os_stat w p \<noteq> None)"

definition os_path_isdir :: "world \<Rightarrow> path \<Rightarrow> bool" where
  "os_path_isdir w p = (os_stat w p = Some Dir)"

definition os_path_isfile :: "world \<Rightarrow> path \<Rightarrow> bool" where
  "os_path_isfile w p = (case os_stat w p of Some (Reg i) \<Rightarrow> True | _ \<Rightarrow> False)"

text \<open>\<open>os.stat(p).st_size\<close>; \<open>None\<close> is OSError.\<close>

definition stat_size :: "world \<Rightarrow> path \<Rightarrow> nat option" where
  "stat_size w p =
     (case os_stat w p of
        None \<Rightarrow> None
      | Some Dir \<Rightarrow> Some (dir_size w)
      | Some (Reg i) \<Rightarrow> Some (st_size (inodes w i))
      | Some (Sym t) \<Rightarrow> None)"

text \<open>\<open>os.remove\<close> unlinks a file or a symbolic link; it raises OSError on a directory
  and on a missing path.\<close>

definition os_remove :: "path \<Rightarrow> world \<Rightarrow> unit result \<times> world" where
  "os_remove p w =
     (case os_lstat w p of
        None \<Rightarrow> (Inl OSError, w)
      | Some Dir \<Rightarrow> (Inl OSError, w)
      | Some _ \<Rightarrow> (Inr (), w\<lparr>nodes := filter (\<lambda>(q, n). q \<noteq> p) (nodes w)\<rparr>))"

text \<open>The names in a directory: the paths of the tree that are \<open>d\<close> joined with one
  component. OSError when \<open>d\<close> is not a directory.\<close>

definition child_name :: "path \<Rightarrow> path \<Rightarrow> string option" where
  "child_name d p =
     (let pre = (if d \<noteq> [] \<and> last d = slash then d else d @ [slash]);
          name = drop (length pre) p
      in if take (length pre) p = pre \<and> name \<noteq> [] \<and> slash \<notin> set name
         then Some name else None)"

definition os_listdir :: "world \<Rightarrow> path \<Rightarrow> string list result" where
  "os_listdir w d =
     (if os_path_isdir w d
      then Inr (remdups (List.map_filter (\<lambda>(p, n). child_name d p) (nodes w)))
      else Inl OSError)"

definition fresh_ino :: "(path \<times> node) list \<Rightarrow> nat" where
  "fresh_ino ns =
     Suc (fold (\<lambda>(p, n) m. case n of Reg i \<Rightarrow> max i m | _ \<Rightarrow> m) ns 0)"

text \<open>\<open>open(p, 'rb').read()\<close>.\<close>

definition read_file :: "world \<Rightarrow> path \<Rightarrow> filedata result" where
  "read_file w p =
     (case os_stat w p of
        Some (Reg i) \<Rightarrow>
          (if contents (inodes w i) = Unreadable then Inl IOError else Inr (inodes w i))
      | _ \<Rightarrow> Inl IOError)"

text \<open>\<open>open(p, 'wb')\<close> followed by writing \<open>d\<close>: an existing regular file is overwritten
  in place, a missing one is created when its directory exists.\<close>

definition write_file :: "path \<Rightarrow> filedata \<Rightarrow> world \<Rightarrow> unit result \<times> world" where
  "write_file p d w =
     (case resolve maxsymlinks (nodes w) p of
        None \<Rightarrow> (Inl IOError, w)
      | Some q \<Rightarrow>
          (case map_of (nodes w) q of
             Some (Reg i) \<Rightarrow> (Inr (), w\<lparr>inodes := (inodes w)(i := d)\<rparr>)
           | Some _ \<Rightarrow> (Inl IOError, w)
           | None \<Rightarrow>
               (if os_path_isdir w (dirname q)
                then (Inr (), w\<lparr>nodes := nodes w @ [(q, Reg (fresh_ino (nodes w)))],
                                inodes := (inodes w)(fresh_ino (nodes w) := d)\<rparr>)
                else (Inl IOError, w))))"


text \<open>\<open>shutil.copy(src, dst)\<close>: into \<open>dst\<close> when it is a directory; \<open>shutil.Error\<close> when
  both are the same file; then \<open>open(src, 'rb')\<close> and \<open>open(dst, 'wb')\<close>, in that order.\<close>

definition samefile :: "world \<Rightarrow> path \<Rightarrow> path \<Rightarrow> bool" where
  "samefile w a b =
     (case os_stat w a of Some (Reg i) \<Rightarrow> os_stat w b = Some (Reg i) | _ \<Rightarrow> False)"

definition shutil_copy :: "path \<Rightarrow> path \<Rightarrow> world \<Rightarrow> unit result \<times> world" where
  "shutil_copy src dst w =
     (let dst' = (if os_path_isdir w dst then os_path_join dst (basename src) else dst)
      in if samefile w src dst' then (Inl ShutilError, w)
         else (case read_file w src of
                 Inl e \<Rightarrow> (Inl e, w)
               | Inr d \<Rightarrow> write_file dst' d w))"

subsection \<open>Remote Fetcher\<close>

text \<open>\<open>re.match(r'^https?://.+$', s)\<close>: the scheme, then at least one character, none of
  them a newline except possibly the last.\<close>

definition newline :: char where
  "newline = CHR 0x0A"

definition is_url :: "string \<Rightarrow> bool" where
  "is_url s =
     (let rest = (if startswith s ''http://'' then Some (drop 7 s)
                  else if startswith s ''https://'' then Some (drop 8 s)
                  else None)
      in case rest of
           None \<Rightarrow> False
         | Some r \<Rightarrow>
             (let body = (if r \<noteq> [] \<and> last r = newline then butlast r else r)
              in body \<noteq> [] \<and> newline \<notin> set body))"

text \<open>\<open>urllib.URLopener().retrieve(url, dest)\<close>: IOError when the server has no such
  object, or when \<open>dest\<close> cannot be opened for writing.\<close>

definition urlretrieve :: "string \<Rightarrow> path \<Rightarrow> world \<Rightarrow> unit result \<times> world" where
  "urlretrieve url dest w =
     (case http w url of
        None \<Rightarrow> (Inl IOError, w)
      | Some d \<Rightarrow> write_file dest d w)"

text \<open>Every call is recorded in the trace as \<open>Fetch\<close>, so that "no fetch happened" can be
  read off the world.\<close>

definition download_or_copy :: "string \<Rightarrow> path \<Rightarrow> world \<Rightarrow> unit result \<times> world" where
  "download_or_copy file_or_url dest w =
     (let w0 = emit (Fetch file_or_url dest) w
      in if is_url file_or_url
         then (case urlretrieve file_or_url dest w0 of
                 (Inl e, w1) \<Rightarrow>
                   (if e = IOError
                    then (Inr (), logging ERROR (''Failed to download '' @ file_or_url) w1)
                    else (Inl e, w1))
               | (Inr u, w1) \<Rightarrow> (Inr (), w1))
         else shutil_copy file_or_url dest w0)"

text \<open>Both branches of \<open>get_free_space\<close> ask the platform; the answer may depend on the
  tree.\<close>

definition get_free_space :: "world \<Rightarrow> path \<Rightarrow> nat" where
  "get_free_space w p = free_bytes w p (nodes w)"

subsection \<open>Cache\<close>

record cache =
  cache_dir :: path
  remote :: string
  max_cache_size :: int
  min_free_space :: int
  max_items :: int
  state_file :: path
  state :: "string list"
  files_added :: "(path \<times> nat) list"
  files_removed :: "(string \<times> nat) list"

definition STATE_FILE :: string where
  "STATE_FILE = ''state.json''"

definition path :: "cache \<Rightarrow> string \<Rightarrow> path" where
  "path c item = os_path_join (cache_dir c) item"

text \<open>\<open>json.dumps(xs, separators=(',', ':'))\<close> for a list of strings; only the quote and
  the backslash are escaped here.\<close>

definition json_quote :: "string \<Rightarrow> string" where
  "json_quote s =
     [CHR 0x22] @
     concat (map (\<lambda>c. if c = CHR 0x22 \<or> c = CHR 0x5C then [CHR 0x5C, c] else [c]) s) @
     [CHR 0x22]"

fun commas :: "string list \<Rightarrow> string" where
  "commas [] = []"
| "commas [x] = x"
| "commas (x # y # ys) = x @ '','' @ commas (y # ys)"

definition json_dumps :: "string list \<Rightarrow> string" where
  "json_dumps xs = ''['' @ commas (map json_quote xs) @ '']''"

definition save :: "cache \<Rightarrow> world \<Rightarrow> unit result \<times> world" where
  "save c w =
     write_file (state_file c)
       \<lparr>st_size = length (json_dumps (state c)), contents = Doc (state c)\<rparr> w"

text \<open>\<open>list.index\<close> (\<open>None\<close> is ValueError) and \<open>list.pop(i)\<close>.\<close>

fun list_index :: "'a list \<Rightarrow> 'a \<Rightarrow> nat option" where
  "list_index [] x = None"
| "list_index (y # ys) x = (if y = x then Some 0 else map_option Suc (list_index ys x))"

definition list_pop :: "nat \<Rightarrow> 'a list \<Rightarrow> 'a list" where
  "list_pop i xs = take i xs @ drop (Suc i) xs"

text \<open>\<open>Cache.retrieve\<close>. The assertion stands before the \<open>try\<close>, so its failure skips
  the \<open>finally\<close>; everything else ends with \<open>save\<close>, whose exception would replace the
  result.\<close>

definition retrieve :: "cache \<Rightarrow> string \<Rightarrow> world \<Rightarrow> bool result \<times> cache \<times> world" where
  "retrieve c item w =
     (if slash \<in> set item then (Inl AssertionError, c, w)
      else
        (case (case list_index (state c) item of
                 Some index \<Rightarrow>
                   (Inr False, c\<lparr>state := list_pop index (state c) @ [item]\<rparr>, w)
               | None \<Rightarrow>
                   (let out = path c item
                    in case download_or_copy (rstrip slash (remote c) @ ''/'' @ item) out w of
                         (Inl e, w1) \<Rightarrow> (Inl e, c, w1)
                       | (Inr u, w1) \<Rightarrow>
                           (if os_path_exists w1 out
                            then (case stat_size w1 out of
                                    None \<Rightarrow> (Inl OSError, c\<lparr>state := state c @ [item]\<rparr>, w1)
                                  | Some sz \<Rightarrow>
                                      (Inr True,
                                       c\<lparr>state := state c @ [item],
                                         files_added := files_added c @ [(out, sz)]\<rparr>, w1))
                            else
                              (Inr True, c,
                               logging ERROR (''File, '' @ item @ '', not placed in cache'') w1))))
         of (r, c1, w1) \<Rightarrow>
           (case save c1 w1 of
              (Inl e, w2) \<Rightarrow> (Inl e, c1, w2)
            | (Inr u, w2) \<Rightarrow> (r, c1, w2))))"


text \<open>Decimal digits of a number, for \<open>%d\<close>.\<close>

fun str_nat :: "nat \<Rightarrow> string" where
  "str_nat n =
     (if n < 10 then [char_of (48 + n)]
      else str_nat (n div 10) @ [char_of (48 + n mod 10)])"

text \<open>\<open>Cache.remove_lru_file\<close>. \<open>pop(0)\<close> on an empty list raises IndexError, which the
  \<open>except OSError\<close> clause does not catch; a failing \<open>os.stat\<close> or \<open>os.remove\<close> is logged
  and the entry stays removed from the list.\<close>

definition remove_lru_file :: "cache \<Rightarrow> world \<Rightarrow> unit result \<times> cache \<times> world" where
  "remove_lru_file c w =
     (case state c of
        [] \<Rightarrow> (Inl IndexError, c, w)
      | filename # rest \<Rightarrow>
          (let c1 = c\<lparr>state := rest\<rparr>;
               full_path = path c1 filename
           in case stat_size w full_path of
                None \<Rightarrow> (Inr (), c1, logging ERROR ''Error attempting to delete a file'' w)
              | Some sz \<Rightarrow>
                  (let w1 = logging INFO
                              (''Trimming '' @ filename @ '': '' @ str_nat sz @ '' bytes'') w;
                       c2 = c1\<lparr>files_removed := files_removed c1 @ [(filename, sz)]\<rparr>
                   in case os_remove full_path w1 of
                        (Inl e, w2) \<Rightarrow>
                          (if is_OSError e
                           then (Inr (), c2,
                                 logging ERROR ''Error attempting to delete a file'' w2)
                           else (Inl e, c2, w2))
                      | (Inr u, w2) \<Rightarrow> (Inr (), c2, w2))))"

text \<open>The loops of \<open>Cache.trim\<close>, one function each.

  \<open>for filename in self.state[:]\<close>: the copy is the first argument; \<open>list.remove\<close> raises
  ValueError when the value is absent.\<close>

fun drop_lost :: "string list \<Rightarrow> cache \<Rightarrow> world \<Rightarrow> unit result \<times> cache \<times> world" where
  "drop_lost [] c w = (Inr (), c, w)"
| "drop_lost (filename # rest) c w =
     (if \<not> os_path_exists w (path c filename)
      then (let w1 = logging INFO (''Removing lost file '' @ filename) w
            in if filename \<in> set (state c)
               then drop_lost rest (c\<lparr>state := remove1 filename (state c)\<rparr>) w1
               else (Inl ValueError, c, w1))
      else drop_lost rest c w)"

text \<open>\<open>for filename in os.listdir(self.cache_dir)\<close>: unknown files become the oldest.\<close>

fun absorb :: "string list \<Rightarrow> cache \<Rightarrow> world \<Rightarrow> cache \<times> world" where
  "absorb [] c w = (c, w)"
| "absorb (filename # rest) c w =
     (if filename = STATE_FILE \<or> filename \<in> set (state c) then absorb rest c w
      else absorb rest (c\<lparr>state := filename # state c\<rparr>)
             (logging WARN (''Unknown file '' @ filename @ '' from cache'') w))"

lemma remove_lru_file_state:
  assumes "state c = f # rest"
  shows "state (fst (snd (remove_lru_file c w))) = rest"
proof (cases "stat_size w (path (c\<lparr>state := rest\<rparr>) f)")
  case None
  with assms show ?thesis by (simp add: remove_lru_file_def)
next
  case (Some sz)
  obtain r w2 where rm: "os_remove (path (c\<lparr>state := rest\<rparr>) f)
      (logging INFO (''Trimming '' @ f @ '': '' @ str_nat sz @ '' bytes'') w) = (r, w2)"
    by (cases "os_remove (path (c\<lparr>state := rest\<rparr>) f)
      (logging INFO (''Trimming '' @ f @ '': '' @ str_nat sz @ '' bytes'') w)")
  show ?thesis
    using assms Some rm by (cases r) (simp_all add: remove_lru_file_def Let_def)
qed

lemma remove_lru_file_shrinks:
  assumes "remove_lru_file c w = (Inr u, c', w')"
  shows "length (state c') < length (state c)"
proof (cases "state c")
  case Nil
  with assms show ?thesis by (simp add: remove_lru_file_def)
next
  case (Cons f rest)
  from remove_lru_file_state [OF Cons, of w] assms have "state c' = rest" by simp
  then show ?thesis using Cons by simp
qed

text \<open>\<open>while self.min_free_space and self.state and get_free_space(...) < ...\<close>.\<close>

function free_loop :: "cache \<Rightarrow> world \<Rightarrow> unit result \<times> cache \<times> world" where
  "free_loop c w =
     (if min_free_space c \<noteq> 0 \<and> state c \<noteq> [] \<and>
         int (get_free_space w (cache_dir c)) < min_free_space c
      then (case remove_lru_file c w of
              (Inl e, c', w') \<Rightarrow> (Inl e, c', w')
            | (Inr u, c', w') \<Rightarrow> free_loop c' w')
      else (Inr (), c, w))"
  by pat_completeness auto
termination
  by (relation "measure (\<lambda>(c, w). length (state c))")
     (auto dest: remove_lru_file_shrinks [OF sym])

text \<open>\<open>[os.stat(self.path(f)).st_size for f in self.state]\<close>; \<open>None\<close> is OSError.\<close>

fun stat_sizes :: "cache \<Rightarrow> world \<Rightarrow> string list \<Rightarrow> nat list option" where
  "stat_sizes c w [] = Some []"
| "stat_sizes c w (f # fs) =
     (case stat_size w (path c f) of
        None \<Rightarrow> None
      | Some sz \<Rightarrow> map_option ((#) sz) (stat_sizes c w fs))"

text \<open>\<open>while sizes and sum(sizes) > self.max_cache_size\<close>.\<close>

fun size_loop :: "nat list \<Rightarrow> cache \<Rightarrow> world \<Rightarrow> unit result \<times> cache \<times> world" where
  "size_loop [] c w = (Inr (), c, w)"
| "size_loop (sz # sizes) c w =
     (if int (sum_list (sz # sizes)) > max_cache_size c
      then (case remove_lru_file c w of
              (Inl e, c', w') \<Rightarrow> (Inl e, c', w')
            | (Inr u, c', w') \<Rightarrow> size_loop sizes c' w')
      else (Inr (), c, w))"

text \<open>\<open>while len(self.state) > self.max_items\<close>.\<close>

function items_loop :: "cache \<Rightarrow> world \<Rightarrow> unit result \<times> cache \<times> world" where
  "items_loop c w =
     (if int (length (state c)) > max_items c
      then (case remove_lru_file c w of
              (Inl e, c', w') \<Rightarrow> (Inl e, c', w')
            | (Inr u, c', w') \<Rightarrow> items_loop c' w')
      else (Inr (), c, w))"
  by pat_completeness auto
termination
  by (relation "measure (\<lambda>(c, w). length (state c))")
     (auto dest: remove_lru_file_shrinks [OF sym])

text \<open>Sequencing of calls that may raise: the first exception ends the sequence.\<close>

definition seq ::
  "'a result \<times> cache \<times> world \<Rightarrow> ('a \<Rightarrow> cache \<Rightarrow> world \<Rightarrow> 'b result \<times> cache \<times> world) \<Rightarrow>
   'b result \<times> cache \<times> world" where
  "seq m f = (case m of (Inl e, c, w) \<Rightarrow> (Inl e, c, w) | (Inr x, c, w) \<Rightarrow> f x c w)"

definition reconcile :: "cache \<Rightarrow> world \<Rightarrow> unit result \<times> cache \<times> world" where
  "reconcile c w =
     seq (drop_lost (state c) c w) (\<lambda>u c1 w1.
       case os_listdir w1 (cache_dir c1) of
         Inl e \<Rightarrow> (Inl e, c1, w1)
       | Inr names \<Rightarrow> (case absorb names c1 w1 of (c2, w2) \<Rightarrow> (Inr (), c2, w2)))"

definition size_phase :: "cache \<Rightarrow> world \<Rightarrow> unit result \<times> cache \<times> world" where
  "size_phase c w =
     (if max_cache_size c \<noteq> 0 \<and> state c \<noteq> []
      then (case stat_sizes c w (state c) of
              None \<Rightarrow> (Inl OSError, c, logging ERROR ''At least one file is missing'' w)
            | Some sizes \<Rightarrow> size_loop sizes c w)
      else (Inr (), c, w))"

definition items_phase :: "cache \<Rightarrow> world \<Rightarrow> unit result \<times> cache \<times> world" where
  "items_phase c w =
     (if max_items c \<noteq> 0 \<and> state c \<noteq> [] then items_loop c w else (Inr (), c, w))"

definition trim :: "cache \<Rightarrow> world \<Rightarrow> unit result \<times> cache \<times> world" where
  "trim c w =
     seq (reconcile c w) (\<lambda>u c2 w2.
     seq (free_loop c2 w2) (\<lambda>u c3 w3.
     seq (size_phase c3 w3) (\<lambda>u c4 w4.
     seq (items_phase c4 w4) (\<lambda>u c5 w5.
       case save c5 w5 of (r, w6) \<Rightarrow> (r, c5, w6)))))"

lemma list_index_None: "(list_index xs x = None) = (x \<notin> set xs)"
  by (induction xs) auto

lemma list_index_pop: "list_index xs x = Some i \<Longrightarrow> list_pop i xs = remove1 x xs"
proof (induction xs arbitrary: i)
  case Nil
  then show ?case by simp
next
  case (Cons y ys)
  show ?case
  proof (cases "y = x")
    case True
    with Cons.prems show ?thesis by (simp add: list_pop_def)
  next
    case False
    with Cons.prems obtain j where j: "list_index ys x = Some j" "i = Suc j" by auto
    from Cons.IH [OF j(1)] False j(2) show ?thesis by (simp add: list_pop_def)
  qed
qed

lemma os_stat_inodes [simp]: "os_stat (w\<lparr>inodes := f\<rparr>) p = os_stat w p"
  by (simp add: os_stat_def cong: option.case_cong)

lemma os_stat_trace [simp]: "os_stat (w\<lparr>trace := t\<rparr>) p = os_stat w p"
  by (simp add: os_stat_def cong: option.case_cong)

lemma os_stat_not_Sym: "os_stat w p \<noteq> Some (Sym t)"
proof -
  have "resolve n ns p = Some q \<Longrightarrow> map_of ns q \<noteq> Some (Sym t)" for n ns q
    by (induction n ns p rule: resolve.induct)
       (auto split: option.splits node.splits)
  then show ?thesis by (auto simp: os_stat_def split: option.splits)
qed

lemma write_file_isfile:
  assumes "os_stat w p = Some (Reg i)"
  shows "write_file p d w = (Inr (), w\<lparr>inodes := (inodes w)(i := d)\<rparr>)"
  using assms by (auto simp: write_file_def os_stat_def split: option.splits)

lemma isfile_Reg: "os_path_isfile w p = (\<exists>i. os_stat w p = Some (Reg i))"
  by (auto simp: os_path_isfile_def split: option.splits node.splits)


lemma read_after_write:
  assumes "os_stat w p = Some (Reg i)"
  shows "read_file (snd (write_file p d w)) p =
           (if contents d = Unreadable then Inl IOError else Inr d)"
  using assms by (simp add: write_file_isfile read_file_def)

lemma retrieve_hit:
  assumes res: "item \<in> set (state c)"
      and ns: "slash \<notin> set item"
      and sf: "os_path_isfile w (state_file c)"
  shows "\<exists>w'. retrieve c item w =
                 (Inr False, c\<lparr>state := remove1 item (state c) @ [item]\<rparr>, w')
             \<and> save (c\<lparr>state := remove1 item (state c) @ [item]\<rparr>) w = (Inr (), w')
             \<and> trace w' = trace w \<and> nodes w' = nodes w
             \<and> os_path_isfile w' (state_file c)
             \<and> read_file w' (state_file c) =
                 Inr \<lparr>st_size = length (json_dumps (remove1 item (state c) @ [item])),
                      contents = Doc (remove1 item (state c) @ [item])\<rparr>"
proof -
  from res obtain k where k: "list_index (state c) item = Some k"
    using list_index_None [of "state c" item] by (cases "list_index (state c) item") auto
  from sf obtain i where i: "os_stat w (state_file c) = Some (Reg i)"
    by (auto simp: isfile_Reg)
  let ?c = "c\<lparr>state := remove1 item (state c) @ [item]\<rparr>"
  let ?d = "\<lparr>st_size = length (json_dumps (state ?c)), contents = Doc (state ?c)\<rparr>"
  let ?w = "w\<lparr>inodes := (inodes w)(i := ?d)\<rparr>"
  have sv: "save ?c w = (Inr (), ?w)"
    using i by (simp add: save_def write_file_isfile)
  have "retrieve c item w = (Inr False, ?c, ?w)"
    using ns k sv by (simp add: retrieve_def list_index_pop)
  moreover have "read_file ?w (state_file c) = Inr ?d"
    using i by (simp add: read_file_def)
  moreover have "os_path_isfile ?w (state_file c)"
    using i by (simp add: isfile_Reg)
  ultimately show ?thesis using sv by simp
qed

subsection \<open>A sample world\<close>

text \<open>A cache directory \<open>/c\<close> with two blobs and its state file, a remote directory
  \<open>/r\<close> on the same device, and a temporary directory.\<close>

definition blob :: "nat \<Rightarrow> filedata" where
  "blob n = \<lparr>st_size = n, contents = Blob\<rparr>"

definition world0 :: world where
  "world0 =
     \<lparr>win32 = False, has_lchmod = False,
      nodes = [(''/'', Dir), (''/c'', Dir), (''/c/state.json'', Reg 1), (''/c/aa'', Reg 2),
               (''/c/bb'', Reg 3), (''/r'', Dir), (''/r/cc'', Reg 4), (''/tmp'', Dir)],
      inodes = (\<lambda>i. if i = 1 then \<lparr>st_size = 11, contents = Doc [''aa'', ''bb'']\<rparr>
                     else blob (10 * i)),
      dir_size = 4096, st_dev = (\<lambda>p. 1), free_bytes = (\<lambda>p ns. 1000),
      http = (\<lambda>u. None), manifest_at = (\<lambda>r. Unreachable), getcwd = ''/'',
      tempdir = ''/tmp'', tmp_names = [''x1'', ''x2''], executable = ''/usr/bin/python'',
      rmtree_failures = 0, child = (\<lambda>cmd cwd ns. Some (0, ns)), trace = []\<rparr>"

definition cache0 :: cache where
  "cache0 =
     \<lparr>cache_dir = ''/c'', remote = ''/r'', max_cache_size = 0, min_free_space = 0,
      max_items = 0, state_file = ''/c/state.json'', state = [''aa'', ''bb''],
      files_added = [], files_removed = []\<rparr>"


subsection \<open>Cache.retrieve on a resident id\<close>

lemma set_move_to_end: "x \<in> set xs \<Longrightarrow> set (remove1 x xs @ [x]) = set xs"
  by (induction xs) auto

text \<open>
  C1 (corrected). For a blob id without a slash that is in the resident list of a cache
  whose state file exists, \<open>retrieve\<close> returns False, moves the id to the end of the list
  (the MRU position), adds nothing to the trace (so it logs nothing and fetches nothing),
  leaves the tree as it is and writes the new list to the state file; a second call
  right after it does the same and the id is again the last one.
\<close>

theorem retrieve_resident_moves_to_mru:
  assumes "item \<in> set (state c)"
      and "slash \<notin> set item"
      and "os_path_isfile w (state_file c)"
  shows "\<exists>c1 w1 c2 w2.
           retrieve c item w = (Inr False, c1, w1)
         \<and> state c1 = remove1 item (state c) @ [item] \<and> last (state c1) = item
         \<and> trace w1 = trace w \<and> nodes w1 = nodes w
         \<and> read_file w1 (state_file c) =
             Inr \<lparr>st_size = length (json_dumps (state c1)), contents = Doc (state c1)\<rparr>
         \<and> retrieve c1 item w1 = (Inr False, c2, w2)
         \<and> last (state c2) = item \<and> set (state c2) = set (state c)
         \<and> trace w2 = trace w \<and> nodes w2 = nodes w
         \<and> read_file w2 (state_file c) =
             Inr \<lparr>st_size = length (json_dumps (state c2)), contents = Doc (state c2)\<rparr>"
proof -
  let ?c1 = "c\<lparr>state := remove1 item (state c) @ [item]\<rparr>"
  from retrieve_hit [OF assms] obtain w1 where
    r1: "retrieve c item w = (Inr False, ?c1, w1)"
    and t1: "trace w1 = trace w" "nodes w1 = nodes w"
    and f1: "os_path_isfile w1 (state_file c)"
    and d1: "read_file w1 (state_file c) =
               Inr \<lparr>st_size = length (json_dumps (remove1 item (state c) @ [item])),
                    contents = Doc (remove1 item (state c) @ [item])\<rparr>"
    by blast
  have in1: "item \<in> set (state ?c1)" by simp
  have sf1: "os_path_isfile w1 (state_file ?c1)" using f1 by simp
  let ?c2 = "?c1\<lparr>state := remove1 item (state ?c1) @ [item]\<rparr>"
  from retrieve_hit [OF in1 assms(2) sf1] obtain w2 where
    r2: "retrieve ?c1 item w1 = (Inr False, ?c2, w2)"
    and t2: "trace w2 = trace w1" "nodes w2 = nodes w1"
    and d2: "read_file w2 (state_file ?c1) =
               Inr \<lparr>st_size = length (json_dumps (remove1 item (state ?c1) @ [item])),
                    contents = Doc (remove1 item (state ?c1) @ [item])\<rparr>"
    by blast
  have s2: "set (state ?c2) = set (state c)"
  proof -
    have "set (state ?c1) = set (state c)"
      using assms(1) by (simp add: set_move_to_end del: set_append)
    moreover have "set (state ?c2) = set (state ?c1)"
      using set_move_to_end [OF in1] by simp
    ultimately show ?thesis by simp
  qed
  show ?thesis
    using r1 t1 d1 r2 t2 d2 s2 by (intro exI [of _ ?c1] exI [of _ w1] exI [of _ ?c2] exI [of _ w2]) simp
qed

theorem retrieve_resident_moves_to_mru_witness:
  "''aa'' \<in> set (state cache0) \<and> slash \<notin> set ''aa''
   \<and> os_path_isfile world0 (state_file cache0)
   \<and> fst (retrieve cache0 ''aa'' world0) = Inr False
   \<and> state (fst (snd (retrieve cache0 ''aa'' world0))) = [''bb'', ''aa'']"
proof -
  have h1: "''aa'' \<in> set (state cache0)" by (simp add: cache0_def)
  have h2: "slash \<notin> set ''aa''" by (simp add: slash_def)
  have h3: "os_path_isfile world0 (state_file cache0)" by code_simp
  from retrieve_resident_moves_to_mru [OF h1 h2 h3] obtain c1 w1 where
    "retrieve cache0 ''aa'' world0 = (Inr False, c1, w1)"
    "state c1 = remove1 ''aa'' (state cache0) @ [''aa'']"
    by blast
  then show ?thesis using h1 h2 h3 by (simp add: cache0_def)
qed

text \<open>The claim as stated fails for a resident id that contains a slash (the state file
  may list one): the assertion rejects it before the list is touched.\<close>

definition cache_slash :: cache where
  "cache_slash = cache0\<lparr>state := [''d/x'', ''aa'']\<rparr>"

theorem retrieve_resident_counterexample:
  "''d/x'' \<in> set (state cache_slash)
   \<and> retrieve cache_slash ''d/x'' world0 = (Inl AssertionError, cache_slash, world0)"
  by (simp add: cache_slash_def cache0_def retrieve_def slash_def)

subsection \<open>What each step of trim does to the resident list\<close>

lemma remove_lru_file_tl: "state (fst (snd (remove_lru_file c w))) = tl (state c)"
proof (cases "state c")
  case Nil
  then show ?thesis by (simp add: remove_lru_file_def)
next
  case (Cons f rest)
  from remove_lru_file_state [OF Cons] show ?thesis using Cons by simp
qed

lemma seq_cases:
  assumes "seq m f = (r, c', w')"
  obtains (raised) e where "m = (Inl e, c', w')" "r = Inl e"
        | (went_on) x c1 w1 where "m = (Inr x, c1, w1)" "f x c1 w1 = (r, c', w')"
proof (cases m)
  case (fields a c1 w1)
  show ?thesis
  proof (cases a)
    case (Inl e)
    with fields assms raised show ?thesis by (simp add: seq_def)
  next
    case (Inr x)
    with fields assms went_on show ?thesis by (simp add: seq_def)
  qed
qed






text \<open>The three budget loops only ever call \<open>remove_lru_file\<close>; \<open>evicts c w c' w'\<close>
  says that \<open>c', w'\<close> is reached from \<open>c, w\<close> by such calls.\<close>

inductive evicts :: "cache \<Rightarrow> world \<Rightarrow> cache \<Rightarrow> world \<Rightarrow> bool" where
  evicts_none: "evicts c w c w"
| evicts_more: "remove_lru_file c w = (r, c1, w1) \<Longrightarrow> evicts c1 w1 c2 w2 \<Longrightarrow> evicts c w c2 w2"

lemma free_loop_evicts: "free_loop c w = (r, c', w') \<Longrightarrow> evicts c w c' w'"
proof (induction "length (state c)" arbitrary: c w rule: less_induct)
  case less
  show ?case
  proof (cases "min_free_space c \<noteq> 0 \<and> state c \<noteq> [] \<and>
         int (get_free_space w (cache_dir c)) < min_free_space c")
    case False
    with less.prems have "c' = c" "w' = w" by (auto simp: free_loop.simps [of c w])
    then show ?thesis by (simp add: evicts_none)
  next
    case True
    obtain r1 c1 w1 where rm: "remove_lru_file c w = (r1, c1, w1)"
      by (cases "remove_lru_file c w")
    show ?thesis
    proof (cases r1)
      case (Inl e)
      with True rm less.prems have "c' = c1" "w' = w1"
        by (auto simp: free_loop.simps [of c w])
      with rm show ?thesis by (auto intro: evicts_more evicts_none)
    next
      case (Inr u)
      with True rm less.prems have again: "free_loop c1 w1 = (r, c', w')"
        by (simp add: free_loop.simps [of c w])
      from rm Inr have "length (state c1) < length (state c)"
        by (auto dest: remove_lru_file_shrinks)
      from less.hyps [OF this again] rm show ?thesis by (auto intro: evicts_more)
    qed
  qed
qed

lemma items_loop_evicts: "items_loop c w = (r, c', w') \<Longrightarrow> evicts c w c' w'"
proof (induction "length (state c)" arbitrary: c w rule: less_induct)
  case less
  show ?case
  proof (cases "int (length (state c)) > max_items c")
    case False
    with less.prems have "c' = c" "w' = w" by (auto simp: items_loop.simps [of c w])
    then show ?thesis by (simp add: evicts_none)
  next
    case True
    obtain r1 c1 w1 where rm: "remove_lru_file c w = (r1, c1, w1)"
      by (cases "remove_lru_file c w")
    show ?thesis
    proof (cases r1)
      case (Inl e)
      with True rm less.prems have "c' = c1" "w' = w1"
        by (auto simp: items_loop.simps [of c w])
      with rm show ?thesis by (auto intro: evicts_more evicts_none)
    next
      case (Inr u)
      with True rm less.prems have again: "items_loop c1 w1 = (r, c', w')"
        by (simp add: items_loop.simps [of c w])
      from rm Inr have "length (state c1) < length (state c)"
        by (auto dest: remove_lru_file_shrinks)
      from less.hyps [OF this again] rm show ?thesis by (auto intro: evicts_more)
    qed
  qed
qed

lemma size_loop_evicts: "size_loop sizes c w = (r, c', w') \<Longrightarrow> evicts c w c' w'"
proof (induction sizes arbitrary: c w)
  case Nil
  then show ?case by (simp add: evicts_none)
next
  case (Cons sz sizes)
  show ?case
  proof (cases "int (sum_list (sz # sizes)) > max_cache_size c")
    case False
    with Cons.prems show ?thesis by (simp add: evicts_none)
  next
    case True
    obtain r1 c1 w1 where rm: "remove_lru_file c w = (r1, c1, w1)"
      by (cases "remove_lru_file c w")
    show ?thesis
    proof (cases r1)
      case (Inl e)
      with True rm Cons.prems show ?thesis by (auto intro: evicts_more evicts_none)
    next
      case (Inr u)
      with True rm Cons.prems have "size_loop sizes c1 w1 = (r, c', w')" by simp
      from Cons.IH [OF this] rm show ?thesis by (auto intro: evicts_more)
    qed
  qed
qed

lemma evicts_suffix: "evicts c w c' w' \<Longrightarrow> suffix (state c') (state c)"
proof (induction rule: evicts.induct)
  case (evicts_none c w)
  show ?case by simp
next
  case (evicts_more c w r c1 w1 c2 w2)
  from remove_lru_file_tl [of c w] evicts_more.hyps(1) have "state c1 = tl (state c)" by simp
  with evicts_more.IH show ?case using suffix_order.trans suffix_tl by metis
qed





lemma reconcile_cases:
  obtains (lost_raised) e c1 w1 where
      "drop_lost (state c) c w = (Inl e, c1, w1)" "reconcile c w = (Inl e, c1, w1)"
  | (listdir_raised) u c1 w1 e where
      "drop_lost (state c) c w = (Inr u, c1, w1)" "os_listdir w1 (cache_dir c1) = Inl e"
      "reconcile c w = (Inl e, c1, w1)"
  | (absorbed) u c1 w1 names c2 w2 where
      "drop_lost (state c) c w = (Inr u, c1, w1)" "os_listdir w1 (cache_dir c1) = Inr names"
      "absorb names c1 w1 = (c2, w2)" "reconcile c w = (Inr (), c2, w2)"
proof (cases "drop_lost (state c) c w")
  case (fields r c1 w1)
  show ?thesis
  proof (cases r)
    case (Inl e)
    with fields lost_raised show ?thesis by (simp add: reconcile_def seq_def)
  next
    case (Inr u)
    show ?thesis
    proof (cases "os_listdir w1 (cache_dir c1)")
      case (Inl e)
      with fields Inr listdir_raised show ?thesis by (simp add: reconcile_def seq_def)
    next
      case names: (Inr names)
      obtain c2 w2 where "absorb names c1 w1 = (c2, w2)" by (cases "absorb names c1 w1")
      with fields Inr names absorbed show ?thesis by (simp add: reconcile_def seq_def)
    qed
  qed
qed



lemma free_loop_suffix: "suffix (state (fst (snd (free_loop c w)))) (state c)"
  using free_loop_evicts [of c w] evicts_suffix by (cases "free_loop c w") auto

lemma size_phase_suffix: "suffix (state (fst (snd (size_phase c w)))) (state c)"
proof (cases "max_cache_size c \<noteq> 0 \<and> state c \<noteq> []")
  case False
  then show ?thesis by (auto simp: size_phase_def)
next
  case True
  show ?thesis
  proof (cases "stat_sizes c w (state c)")
    case None
    with True show ?thesis by (simp add: size_phase_def)
  next
    case (Some sizes)
    with True have "size_phase c w = size_loop sizes c w" by (simp add: size_phase_def)
    then show ?thesis
      using size_loop_evicts [of sizes c w] evicts_suffix by (cases "size_loop sizes c w") auto
  qed
qed

lemma items_phase_suffix: "suffix (state (fst (snd (items_phase c w)))) (state c)"
  using items_loop_evicts [of c w] evicts_suffix
  by (cases "items_loop c w") (auto simp: items_phase_def)

lemma seq_cache:
  "fst (snd (seq m f)) =
     (case m of (Inl e, c, w) \<Rightarrow> c | (Inr x, c, w) \<Rightarrow> fst (snd (f x c w)))"
  by (auto simp: seq_def split: prod.splits sum.splits)

lemma budgets_suffix:
  "suffix (state (fst (snd (
      seq (free_loop c2 w2) (\<lambda>u c3 w3.
      seq (size_phase c3 w3) (\<lambda>u c4 w4.
      seq (items_phase c4 w4) (\<lambda>u c5 w5.
        case save c5 w5 of (r, w6) \<Rightarrow> (r, c5, w6)))))))) (state c2)"
proof -
  obtain r3 c3 w3 where f: "free_loop c2 w2 = (r3, c3, w3)" by (cases "free_loop c2 w2")
  obtain r4 c4 w4 where s: "size_phase c3 w3 = (r4, c4, w4)" by (cases "size_phase c3 w3")
  obtain r5 c5 w5 where i: "items_phase c4 w4 = (r5, c5, w5)" by (cases "items_phase c4 w4")
  have 3: "suffix (state c3) (state c2)" using free_loop_suffix [of c2 w2] f by simp
  have 4: "suffix (state c4) (state c3)" using size_phase_suffix [of c3 w3] s by simp
  have 5: "suffix (state c5) (state c4)" using items_phase_suffix [of c4 w4] i by simp
  from 3 4 5 have 43: "suffix (state c4) (state c2)" and 53: "suffix (state c5) (state c2)"
    using suffix_order.trans by blast+
  show ?thesis
    using f s i 3 43 53
    by (cases r3; cases r4; cases r5) (simp_all add: seq_def split: prod.splits)
qed

lemma trim_suffix:
  "suffix (state (fst (snd (trim c w)))) (state (fst (snd (reconcile c w))))"
proof (cases "reconcile c w")
  case (fields r c2 w2)
  show ?thesis
  proof (cases r)
    case (Inl e)
    with fields show ?thesis by (simp add: trim_def seq_def)
  next
    case (Inr u)
    with fields budgets_suffix [of c2 w2] show ?thesis by (simp add: trim_def seq_def)
  qed
qed


subsection \<open>The state file and the resident list\<close>




lemma evicts_trans: "evicts c w c1 w1 \<Longrightarrow> evicts c1 w1 c2 w2 \<Longrightarrow> evicts c w c2 w2"
  by (induction rule: evicts.induct) (auto intro: evicts_more)

lemma size_phase_evicts:
  assumes "size_phase c w = (r, c', w')"
  shows "\<exists>w0. evicts c w c' w0 \<and> (r = Inr () \<longrightarrow> w0 = w')"
proof (cases "max_cache_size c \<noteq> 0 \<and> state c \<noteq> []")
  case False
  with assms show ?thesis by (auto simp: size_phase_def intro: evicts_none)
next
  case True
  show ?thesis
  proof (cases "stat_sizes c w (state c)")
    case None
    with True assms show ?thesis by (auto simp: size_phase_def intro: evicts_none)
  next
    case (Some sizes)
    with True assms have "size_loop sizes c w = (r, c', w')" by (simp add: size_phase_def)
    from size_loop_evicts [OF this] show ?thesis by auto
  qed
qed

lemma items_phase_evicts:
  assumes "items_phase c w = (r, c', w')"
  shows "evicts c w c' w'"
proof (cases "max_items c \<noteq> 0 \<and> state c \<noteq> []")
  case True
  with assms have "items_loop c w = (r, c', w')" by (simp add: items_phase_def)
  then show ?thesis by (rule items_loop_evicts)
next
  case False
  with assms show ?thesis by (auto simp: items_phase_def intro: evicts_none)
qed

text \<open>Whatever trim returns, the cache it leaves is reached from the reconciled one by
  calls of \<open>remove_lru_file\<close>; when it returns normally, \<open>save\<close> is the last step.\<close>

lemma trim_evicts:
  assumes "reconcile c w = (Inr u, c2, w2)" and "trim c w = (r, c', w')"
  shows "\<exists>w5. evicts c2 w2 c' w5 \<and> (r = Inr () \<longrightarrow> save c' w5 = (Inr (), w'))"
proof -
  obtain r3 c3 w3 where f: "free_loop c2 w2 = (r3, c3, w3)" by (cases "free_loop c2 w2")
  obtain r4 c4 w4 where s: "size_phase c3 w3 = (r4, c4, w4)" by (cases "size_phase c3 w3")
  obtain r5 c5 w5 where i: "items_phase c4 w4 = (r5, c5, w5)" by (cases "items_phase c4 w4")
  obtain r6 w6 where sv: "save c5 w5 = (r6, w6)" by (cases "save c5 w5")
  have e3: "evicts c2 w2 c3 w3" using free_loop_evicts [OF f] .
  from size_phase_evicts [OF s] obtain w4' where
    e4: "evicts c3 w3 c4 w4'" and e4a: "r4 = Inr () \<longrightarrow> w4' = w4" by auto
  have e5: "evicts c4 w4 c5 w5" using items_phase_evicts [OF i] .
  show ?thesis
  proof (cases r3)
    case (Inl e)
    with assms f e3 show ?thesis by (auto simp: trim_def seq_def)
  next
    case r3: (Inr u3)
    show ?thesis
    proof (cases r4)
      case (Inl e)
      with assms f r3 s evicts_trans [OF e3 e4] show ?thesis by (auto simp: trim_def seq_def)
    next
      case r4: (Inr u4)
      with e4 e4a have e4b: "evicts c3 w3 c4 w4" by simp
      have all: "evicts c2 w2 c5 w5" using evicts_trans [OF e3 evicts_trans [OF e4b e5]] .
      show ?thesis
      proof (cases r5)
        case (Inl e)
        with assms f r3 s r4 i all show ?thesis by (auto simp: trim_def seq_def)
      next
        case r5: (Inr u5)
        with assms f r3 s r4 i sv have "c' = c5" "w' = w6" "r = r6"
          by (auto simp: trim_def seq_def)
        with all sv show ?thesis by auto
      qed
    qed
  qed
qed


lemma remove_lru_file_removed:
  "fst ` set (files_removed (fst (snd (remove_lru_file c w))))
     \<subseteq> fst ` set (files_removed c) \<union> set (state c)"
proof (cases "state c")
  case Nil
  then show ?thesis by (simp add: remove_lru_file_def)
next
  case (Cons f rest)
  show ?thesis
  proof (cases "stat_size w (path (c\<lparr>state := rest\<rparr>) f)")
    case None
    with Cons show ?thesis by (auto simp: remove_lru_file_def)
  next
    case (Some sz)
    obtain r w2 where rm: "os_remove (path (c\<lparr>state := rest\<rparr>) f)
        (logging INFO (''Trimming '' @ f @ '': '' @ str_nat sz @ '' bytes'') w) = (r, w2)"
      by (cases "os_remove (path (c\<lparr>state := rest\<rparr>) f)
        (logging INFO (''Trimming '' @ f @ '': '' @ str_nat sz @ '' bytes'') w)")
    show ?thesis
      using Cons Some rm by (cases r) (auto simp: remove_lru_file_def Let_def)
  qed
qed

lemma evicts_removed:
  "evicts c w c' w' \<Longrightarrow>
   fst ` set (files_removed c') \<subseteq> fst ` set (files_removed c) \<union> set (state c)"
proof (induction rule: evicts.induct)
  case (evicts_none c w)
  show ?case by simp
next
  case (evicts_more c w r c1 w1 c2 w2)
  have a: "fst ` set (files_removed c1) \<subseteq> fst ` set (files_removed c) \<union> set (state c)"
    using remove_lru_file_removed [of c w] evicts_more.hyps(1) by simp
  have "state c1 = tl (state c)"
    using remove_lru_file_tl [of c w] evicts_more.hyps(1) by simp
  then have b: "set (state c1) \<subseteq> set (state c)"
    by (cases "state c") auto
  from evicts_more.IH a b show ?case by blast
qed

lemma drop_lost_removed [simp]:
  "files_removed (fst (snd (drop_lost xs c w))) = files_removed c"
  by (induction xs c w rule: drop_lost.induct) (auto simp: Let_def)

lemma absorb_removed [simp]: "files_removed (fst (absorb names c w)) = files_removed c"
  by (induction names c w rule: absorb.induct) auto

lemma reconcile_removed [simp]:
  "files_removed (fst (snd (reconcile c w))) = files_removed c"
proof (cases c w rule: reconcile_cases)
  case (lost_raised e c1 w1)
  with drop_lost_removed [of "state c" c w] show ?thesis by simp
next
  case (listdir_raised u c1 w1 e)
  with drop_lost_removed [of "state c" c w] show ?thesis by simp
next
  case (absorbed u c1 w1 names c2 w2)
  with drop_lost_removed [of "state c" c w] absorb_removed [of names c1 w1]
  show ?thesis by simp
qed

lemma trim_removed:
  "fst ` set (files_removed (fst (snd (trim c w))))
     \<subseteq> fst ` set (files_removed c) \<union> set (state (fst (snd (reconcile c w))))"
proof (cases "reconcile c w")
  case (fields r c2 w2)
  show ?thesis
  proof (cases r)
    case (Inl e)
    with fields reconcile_removed [of c w] show ?thesis by (auto simp: trim_def seq_def)
  next
    case (Inr u)
    obtain r' c' w' where t: "trim c w = (r', c', w')" by (cases "trim c w")
    from trim_evicts [OF fields [unfolded Inr] t] obtain w5 where "evicts c2 w2 c' w5"
      by auto
    from evicts_removed [OF this] t fields reconcile_removed [of c w] show ?thesis by simp
  qed
qed

text \<open>The sample cache with an HTTP remote that serves nothing, and the sample world
  with a file in the cache directory that the state file does not list.\<close>

definition cache_http :: cache where
  "cache_http = cache0\<lparr>remote := ''http://h/''\<rparr>"

definition world_orphan :: world where
  "world_orphan = world0\<lparr>nodes := nodes world0 @ [(''/c/zz'', Reg 5)]\<rparr>"

subsection \<open>The assertion of retrieve\<close>

text \<open>A path is inside a directory when it is the directory followed by one more
  component that is a real name: not empty, without a slash, and neither \<open>.\<close> nor \<open>..\<close>.\<close>

definition inside_dir :: "path \<Rightarrow> path \<Rightarrow> bool" where
  "inside_dir d p =
     (case child_name d p of
        None \<Rightarrow> False
      | Some name \<Rightarrow> name \<noteq> ''.'' \<and> name \<noteq> ''..'')"

lemma child_name_join:
  assumes "slash \<notin> set item" and "item \<noteq> []" and "d \<noteq> []"
  shows "child_name d (os_path_join d item) = Some item"
proof -
  from assms have "\<not> isabs item" by (cases item) (auto simp: isabs_def)
  then show ?thesis using assms by (auto simp: child_name_def os_path_join_def Let_def)
qed

subsection \<open>Sizes under eviction\<close>

text \<open>The size \<open>os.stat\<close> reports for a path, 0 when the path does not resolve; the sum
  over the resident list is what the size budget is about.\<close>

definition size_of :: "world \<Rightarrow> path \<Rightarrow> nat" where
  "size_of w p = (case stat_size w p of None \<Rightarrow> 0 | Some n \<Rightarrow> n)"

definition total_size :: "world \<Rightarrow> cache \<Rightarrow> nat" where
  "total_size w c = sum_list (map (\<lambda>f. size_of w (path c f)) (state c))"

lemma map_of_unlink:
  "map_of (filter (\<lambda>(q, n). q \<noteq> p) ns) x = (if x = p then None else map_of ns x)"
  by (induction ns) auto

lemma resolve_unlink:
  "(case resolve n (filter (\<lambda>(q, n). q \<noteq> p) ns) x of
      None \<Rightarrow> None
    | Some q \<Rightarrow> map_of (filter (\<lambda>(q, n). q \<noteq> p) ns) q) = None
   \<or> (case resolve n (filter (\<lambda>(q, n). q \<noteq> p) ns) x of
      None \<Rightarrow> None
    | Some q \<Rightarrow> map_of (filter (\<lambda>(q, n). q \<noteq> p) ns) q)
     = (case resolve n ns x of None \<Rightarrow> None | Some q \<Rightarrow> map_of ns q)"
proof (induction n arbitrary: x)
  case 0
  show ?case by simp
next
  case (Suc n)
  show ?case
  proof (cases "x = p")
    case True
    then show ?thesis by (simp add: map_of_unlink)
  next
    case False
    show ?thesis
    proof (cases "map_of ns x")
      case None
      with False show ?thesis by (simp add: map_of_unlink)
    next
      case (Some nd)
      show ?thesis
      proof (cases nd)
        case (Sym t)
        with Some False Suc [of "os_path_join (dirname x) t"] show ?thesis
          by (simp add: map_of_unlink)
      qed (use Some False in \<open>simp_all add: map_of_unlink\<close>)
    qed
  qed
qed

lemma os_remove_stat:
  "os_stat (snd (os_remove p w)) x = None \<or> os_stat (snd (os_remove p w)) x = os_stat w x"
proof (cases "os_lstat w p")
  case None
  then show ?thesis by (simp add: os_remove_def)
next
  case (Some nd)
  show ?thesis
  proof (cases nd)
    case Dir
    with Some show ?thesis by (simp add: os_remove_def)
  next
    case (Reg i)
    with Some resolve_unlink [where n = maxsymlinks and p = p and ns = "nodes w" and x = x] show ?thesis
      by (simp add: os_remove_def os_stat_def cong: option.case_cong)
  next
    case (Sym t)
    with Some resolve_unlink [where n = maxsymlinks and p = p and ns = "nodes w" and x = x] show ?thesis
      by (simp add: os_remove_def os_stat_def cong: option.case_cong)
  qed
qed

lemma os_remove_inodes [simp]: "inodes (snd (os_remove p w)) = inodes w"
  by (simp add: os_remove_def split: option.splits node.splits)

lemma os_remove_dir_size [simp]: "dir_size (snd (os_remove p w)) = dir_size w"
  by (simp add: os_remove_def split: option.splits node.splits)

lemma os_remove_size: "size_of (snd (os_remove p w)) x \<le> size_of w x"
  using os_remove_stat [of p w x]
  by (auto simp: size_of_def stat_size_def split: option.splits node.splits)

lemma size_of_logging [simp]: "size_of (logging l m w) x = size_of w x"
  by (simp add: size_of_def stat_size_def logging_def emit_def
        cong: option.case_cong node.case_cong)

lemma path_state_update [simp]: "path (c\<lparr>state := xs\<rparr>) f = path c f"
  by (simp add: path_def)

lemma path_removed_update [simp]: "path (c\<lparr>files_removed := xs\<rparr>) f = path c f"
  by (simp add: path_def)

lemma os_remove_error: "fst (os_remove p w) = Inl e \<Longrightarrow> e = OSError"
  by (auto simp: os_remove_def split: option.splits node.splits)

lemma remove_lru_file_cases:
  obtains (empty) "state c = []" "remove_lru_file c w = (Inl IndexError, c, w)"
  | (gone) f rest where "state c = f # rest" "stat_size w (path c f) = None"
      "remove_lru_file c w =
         (Inr (), c\<lparr>state := rest\<rparr>, logging ERROR ''Error attempting to delete a file'' w)"
  | (unlinked) f rest sz r w2 where "state c = f # rest" "stat_size w (path c f) = Some sz"
      "os_remove (path c f)
         (logging INFO (''Trimming '' @ f @ '': '' @ str_nat sz @ '' bytes'') w) = (r, w2)"
      "remove_lru_file c w =
         (Inr (), c\<lparr>state := rest, files_removed := files_removed c @ [(f, sz)]\<rparr>,
          if r = Inr () then w2 else logging ERROR ''Error attempting to delete a file'' w2)"
proof (cases "state c")
  case Nil
  with empty show ?thesis by (simp add: remove_lru_file_def)
next
  case (Cons f rest)
  show ?thesis
  proof (cases "stat_size w (path c f)")
    case None
    with Cons gone show ?thesis by (simp add: remove_lru_file_def)
  next
    case (Some sz)
    obtain r w2 where rm: "os_remove (path c f)
        (logging INFO (''Trimming '' @ f @ '': '' @ str_nat sz @ '' bytes'') w) = (r, w2)"
      by (cases "os_remove (path c f)
        (logging INFO (''Trimming '' @ f @ '': '' @ str_nat sz @ '' bytes'') w)")
    have "remove_lru_file c w =
         (Inr (), c\<lparr>state := rest, files_removed := files_removed c @ [(f, sz)]\<rparr>,
          if r = Inr () then w2 else logging ERROR ''Error attempting to delete a file'' w2)"
    proof (cases r)
      case (Inl e)
      with rm os_remove_error [of "path c f"
          "logging INFO (''Trimming '' @ f @ '': '' @ str_nat sz @ '' bytes'') w" e]
      have "e = OSError" by simp
      with Inl Cons Some rm show ?thesis
        by (simp add: remove_lru_file_def Let_def is_OSError_def)
    next
      case (Inr u)
      with Cons Some rm show ?thesis by (simp add: remove_lru_file_def Let_def)
    qed
    with Cons Some rm unlinked show ?thesis by blast
  qed
qed

lemma remove_lru_file_size:
  "size_of (snd (snd (remove_lru_file c w))) x \<le> size_of w x"
proof (cases c w rule: remove_lru_file_cases)
  case empty
  then show ?thesis by simp
next
  case (gone f rest)
  then show ?thesis by simp
next
  case (unlinked f rest sz r w2)
  have "size_of w2 x \<le> size_of w x"
    using os_remove_size [of "path c f"
        "logging INFO (''Trimming '' @ f @ '': '' @ str_nat sz @ '' bytes'') w" x] unlinked(3)
    by simp
  with unlinked(4) show ?thesis by simp
qed

lemma remove_lru_file_config:
  "cache_dir (fst (snd (remove_lru_file c w))) = cache_dir c
   \<and> state_file (fst (snd (remove_lru_file c w))) = state_file c
   \<and> max_items (fst (snd (remove_lru_file c w))) = max_items c
   \<and> max_cache_size (fst (snd (remove_lru_file c w))) = max_cache_size c"
  by (cases c w rule: remove_lru_file_cases) simp_all

lemma evicts_config:
  "evicts c w c' w' \<Longrightarrow>
   cache_dir c' = cache_dir c \<and> state_file c' = state_file c
   \<and> max_items c' = max_items c \<and> max_cache_size c' = max_cache_size c"
proof (induction rule: evicts.induct)
  case (evicts_none c w)
  show ?case by simp
next
  case (evicts_more c w r c1 w1 c2 w2)
  have "fst (snd (remove_lru_file c w)) = c1"
    by (simp add: evicts_more.hyps(1))
  with remove_lru_file_config [of c w]
  have "cache_dir c1 = cache_dir c \<and> state_file c1 = state_file c
        \<and> max_items c1 = max_items c \<and> max_cache_size c1 = max_cache_size c"
    by metis
  with evicts_more.IH show ?case by metis
qed

lemma evicts_size: "evicts c w c' w' \<Longrightarrow> size_of w' x \<le> size_of w x"
proof (induction rule: evicts.induct)
  case (evicts_none c w)
  show ?case by simp
next
  case (evicts_more c w r c1 w1 c2 w2)
  have "snd (snd (remove_lru_file c w)) = w1"
    by (simp add: evicts_more.hyps(1))
  with remove_lru_file_size [of c w x] have "size_of w1 x \<le> size_of w x" by metis
  with evicts_more.IH show ?case by (rule order_trans)
qed

lemma path_cong: "cache_dir c' = cache_dir c \<Longrightarrow> path c' f = path c f"
  by (simp add: path_def)


lemma evicts_total_size:
  assumes "evicts c w c' w'"
  shows "total_size w' c' \<le> total_size w c"
proof -
  from evicts_suffix [OF assms] obtain zs where zs: "state c = zs @ state c'"
    by (auto simp: suffix_def)
  have p: "path c' f = path c f" for f
    using evicts_config [OF assms] by (intro path_cong) simp
  have "sum_list (map (\<lambda>f. size_of w' (path c f)) (state c'))
          \<le> sum_list (map (\<lambda>f. size_of w (path c f)) (state c'))"
    by (rule sum_list_mono) (simp add: evicts_size [OF assms])
  also have "\<dots> \<le> total_size w c" by (simp add: total_size_def zs)
  finally show ?thesis by (simp add: total_size_def p)
qed

subsection \<open>The budgets after the loops\<close>

lemma items_loop_bound:
  "items_loop c w = (Inr u, c', w') \<Longrightarrow> int (length (state c')) \<le> max_items c"
proof (induction "length (state c)" arbitrary: c w rule: less_induct)
  case less
  show ?case
  proof (cases "int (length (state c)) > max_items c")
    case False
    with less.prems have "c' = c" by (auto simp: items_loop.simps [of c w])
    with False show ?thesis by simp
  next
    case True
    obtain r1 c1 w1 where rm: "remove_lru_file c w = (r1, c1, w1)"
      by (cases "remove_lru_file c w")
    show ?thesis
    proof (cases r1)
      case (Inl e)
      with True rm less.prems show ?thesis by (auto simp: items_loop.simps [of c w])
    next
      case (Inr u1)
      with True rm less.prems have again: "items_loop c1 w1 = (Inr u, c', w')"
        by (simp add: items_loop.simps [of c w])
      from rm Inr have shorter: "length (state c1) < length (state c)"
        by (auto dest: remove_lru_file_shrinks)
      have "fst (snd (remove_lru_file c w)) = c1" by (simp add: rm)
      with remove_lru_file_config [of c w] have "max_items c1 = max_items c" by metis
      with less.hyps [OF shorter again] show ?thesis by simp
    qed
  qed
qed

lemma items_phase_bound:
  assumes "items_phase c w = (Inr u, c', w')" and "0 < max_items c"
  shows "int (length (state c')) \<le> max_items c"
proof (cases "state c = []")
  case True
  with assms show ?thesis by (auto simp: items_phase_def)
next
  case False
  with assms have "items_loop c w = (Inr u, c', w')" by (simp add: items_phase_def)
  then show ?thesis by (rule items_loop_bound)
qed

lemma stat_sizes_exact:
  "stat_sizes c w fs = Some sizes \<Longrightarrow> sizes = map (\<lambda>f. size_of w (path c f)) fs"
proof (induction fs arbitrary: sizes)
  case Nil
  then show ?case by simp
next
  case (Cons f fs)
  then show ?case
    by (auto simp: size_of_def split: option.splits)
qed

lemma sum_list_all2_le:
  "list_all2 (\<lambda>f s. g f \<le> (s::nat)) fs sizes \<Longrightarrow> sum_list (map g fs) \<le> sum_list sizes"
  by (induction fs sizes rule: list_all2_induct) auto

lemma size_loop_bound:
  assumes "size_loop sizes c w = (Inr u, c', w')"
      and "list_all2 (\<lambda>f s. size_of w (path c f) \<le> s) (state c) sizes"
      and "0 \<le> max_cache_size c"
  shows "int (total_size w' c') \<le> max_cache_size c"
  using assms
proof (induction sizes arbitrary: c w)
  case Nil
  then have "state c = []" "c' = c" "w' = w" by simp_all
  with Nil.prems(3) show ?case by (simp add: total_size_def)
next
  case (Cons sz sizes)
  from Cons.prems(2) obtain f rest where st: "state c = f # rest"
    and le: "size_of w (path c f) \<le> sz"
    and rest: "list_all2 (\<lambda>f s. size_of w (path c f) \<le> s) rest sizes"
    by (auto simp: list_all2_Cons2)
  show ?case
  proof (cases "int (sum_list (sz # sizes)) > max_cache_size c")
    case False
    with Cons.prems(1) have same: "c' = c" "w' = w" by simp_all
    have "total_size w c \<le> sum_list (sz # sizes)"
      unfolding total_size_def using Cons.prems(2) by (rule sum_list_all2_le)
    with False same show ?thesis by simp
  next
    case True
    obtain r1 c1 w1 where rm: "remove_lru_file c w = (r1, c1, w1)"
      by (cases "remove_lru_file c w")
    have c1: "fst (snd (remove_lru_file c w)) = c1" and w1: "snd (snd (remove_lru_file c w)) = w1"
      by (simp_all add: rm)
    from remove_lru_file_config [of c w] c1
    have cfg: "cache_dir c1 = cache_dir c" "max_cache_size c1 = max_cache_size c" by metis+
    from remove_lru_file_tl [of c w] c1 st have st1: "state c1 = rest" by simp
    have mono: "size_of w1 x \<le> size_of w x" for x
      using remove_lru_file_size [of c w x] w1 by simp
    have pth: "path c1 g = path c g" for g using cfg(1) by (rule path_cong)
    have inv: "list_all2 (\<lambda>f s. size_of w1 (path c1 f) \<le> s) (state c1) sizes"
      unfolding st1 pth
      by (rule list_all2_mono [OF rest]) (rule order_trans [OF mono])
    show ?thesis
    proof (cases r1)
      case (Inl e)
      with True rm Cons.prems(1) show ?thesis by simp
    next
      case (Inr u1)
      with True rm Cons.prems(1) have "size_loop sizes c1 w1 = (Inr u, c', w')" by simp
      from Cons.IH [OF this inv] Cons.prems(3) cfg(2) show ?thesis by simp
    qed
  qed
qed

lemma size_phase_bound:
  assumes "size_phase c w = (Inr u, c', w')" and "0 < max_cache_size c"
  shows "int (total_size w' c') \<le> max_cache_size c"
proof (cases "state c = []")
  case True
  with assms show ?thesis by (auto simp: size_phase_def total_size_def)
next
  case False
  show ?thesis
  proof (cases "stat_sizes c w (state c)")
    case None
    with False assms show ?thesis by (simp add: size_phase_def)
  next
    case (Some sizes)
    with False assms have loop: "size_loop sizes c w = (Inr u, c', w')"
      by (simp add: size_phase_def)
    have "list_all2 (\<lambda>f s. size_of w (path c f) \<le> s) (state c) sizes"
      unfolding stat_sizes_exact [OF Some] by (simp add: list_all2_map2 list_all2_same)
    from size_loop_bound [OF loop this] assms(2) show ?thesis by simp
  qed
qed

lemma drop_lost_config:
  "cache_dir (fst (snd (drop_lost xs c w))) = cache_dir c
   \<and> state_file (fst (snd (drop_lost xs c w))) = state_file c
   \<and> max_items (fst (snd (drop_lost xs c w))) = max_items c
   \<and> max_cache_size (fst (snd (drop_lost xs c w))) = max_cache_size c"
  by (induction xs c w rule: drop_lost.induct) (auto simp: Let_def)

lemma absorb_config:
  "cache_dir (fst (absorb names c w)) = cache_dir c
   \<and> state_file (fst (absorb names c w)) = state_file c
   \<and> max_items (fst (absorb names c w)) = max_items c
   \<and> max_cache_size (fst (absorb names c w)) = max_cache_size c"
  by (induction names c w rule: absorb.induct) auto

lemma reconcile_config:
  "cache_dir (fst (snd (reconcile c w))) = cache_dir c
   \<and> state_file (fst (snd (reconcile c w))) = state_file c
   \<and> max_items (fst (snd (reconcile c w))) = max_items c
   \<and> max_cache_size (fst (snd (reconcile c w))) = max_cache_size c"
proof (cases c w rule: reconcile_cases)
  case (lost_raised e c1 w1)
  with drop_lost_config [of "state c" c w] show ?thesis by simp
next
  case (listdir_raised u c1 w1 e)
  with drop_lost_config [of "state c" c w] show ?thesis by simp
next
  case (absorbed u c1 w1 names c2 w2)
  with drop_lost_config [of "state c" c w] absorb_config [of names c1 w1]
  show ?thesis by simp
qed

text \<open>The steps of a \<open>trim\<close> that returns normally.\<close>

lemma trim_returns_cases:
  assumes "trim c w = (Inr u, c', w')"
  obtains c2 w2 c3 w3 c4 w4 w5 where
    "reconcile c w = (Inr (), c2, w2)" "free_loop c2 w2 = (Inr (), c3, w3)"
    "size_phase c3 w3 = (Inr (), c4, w4)" "items_phase c4 w4 = (Inr (), c', w5)"
    "save c' w5 = (Inr (), w')"
proof -
  from assms [unfolded trim_def] show ?thesis
  proof (cases rule: seq_cases)
    case (raised e)
    then show ?thesis by simp
  next
    case (went_on u2 c2 w2)
    from went_on(2) show ?thesis
    proof (cases rule: seq_cases)
      case (raised e)
      then show ?thesis by simp
    next
      case 3: (went_on u3 c3 w3)
      from 3(2) show ?thesis
      proof (cases rule: seq_cases)
        case (raised e)
        then show ?thesis by simp
      next
        case 4: (went_on u4 c4 w4)
        from 4(2) show ?thesis
        proof (cases rule: seq_cases)
          case (raised e)
          then show ?thesis by simp
        next
          case 5: (went_on u5 c5 w5)
          from 5(2) have "c5 = c'" "save c' w5 = (Inr (), w')"
            by (auto split: prod.splits)
          with went_on(1) 3(1) 4(1) 5(1) that show ?thesis by simp
        qed
      qed
    qed
  qed
qed

subsection \<open>Writing one file leaves the sizes of the others\<close>

lemma fold_ino_ge:
  "m \<le> fold (\<lambda>(p, n) m. case n of Reg i \<Rightarrow> max i m | _ \<Rightarrow> m) ns m"
proof (induction ns arbitrary: m)
  case Nil
  show ?case by simp
next
  case (Cons a ns)
  obtain p n where a: "a = (p, n)" by (cases a)
  show ?case
  proof (cases n)
    case (Reg i)
    with a Cons [of "max i m"] show ?thesis by simp
  qed (use a Cons [of m] in simp_all)
qed

lemma fold_ino_member:
  "(y, Reg j) \<in> set ns \<Longrightarrow>
   j \<le> fold (\<lambda>(p, n) m. case n of Reg i \<Rightarrow> max i m | _ \<Rightarrow> m) ns m"
proof (induction ns arbitrary: m)
  case Nil
  then show ?case by simp
next
  case (Cons a ns)
  obtain p n where a: "a = (p, n)" by (cases a)
  show ?case
  proof (cases "(y, Reg j) = a")
    case True
    with a have "n = Reg j" by simp
    with a fold_ino_ge [of "max j m" ns] show ?thesis by simp
  next
    case False
    with Cons.prems have "(y, Reg j) \<in> set ns" by simp
    from Cons.IH [OF this] a show ?thesis by (cases n) simp_all
  qed
qed

lemma fresh_ino_fresh: "map_of ns y = Some (Reg j) \<Longrightarrow> j < fresh_ino ns"
  using fold_ino_member [of y j ns 0] by (auto simp: fresh_ino_def dest: map_of_SomeD)

lemma map_of_append_new:
  "map_of ns q = None \<Longrightarrow>
   map_of (ns @ [(q, v)]) y = (if y = q then Some v else map_of ns y)"
  by (auto simp: map_add_def split: option.splits)

lemma resolve_append_new:
  "map_of ns q = None \<Longrightarrow> resolve n (ns @ [(q, Reg k)]) x = resolve n ns x"
proof (induction n arbitrary: x)
  case 0
  show ?case by simp
next
  case (Suc n)
  show ?case
  proof (cases "x = q")
    case True
    with Suc.prems show ?thesis by (simp add: map_of_append_new del: map_of_append)
  next
    case False
    with Suc show ?thesis
      by (simp add: map_of_append_new del: map_of_append
            cong: option.case_cong node.case_cong)
  qed
qed

lemma write_file_other:
  assumes "write_file sf d w = (Inr u, w')" and "os_stat w' p \<noteq> os_stat w' sf"
  shows "size_of w' p = size_of w p"
proof (cases "resolve maxsymlinks (nodes w) sf")
  case None
  with assms(1) show ?thesis by (simp add: write_file_def)
next
  case (Some q)
  show ?thesis
  proof (cases "map_of (nodes w) q")
    case (Some nd)
    show ?thesis
    proof (cases nd)
      case (Reg i)
      with Some \<open>resolve maxsymlinks (nodes w) sf = Some q\<close> assms(1)
      have w': "w' = w\<lparr>inodes := (inodes w)(i := d)\<rparr>" by (simp add: write_file_def)
      have sf: "os_stat w sf = Some (Reg i)"
        using Some Reg \<open>resolve maxsymlinks (nodes w) sf = Some q\<close> by (simp add: os_stat_def)
      with assms(2) w' have "os_stat w p \<noteq> Some (Reg i)" by simp
      then show ?thesis
        unfolding w' by (auto simp: size_of_def stat_size_def split: option.splits node.splits)
    qed (use Some \<open>resolve maxsymlinks (nodes w) sf = Some q\<close> assms(1) in
          \<open>simp_all add: write_file_def\<close>)
  next
    case None
    let ?k = "fresh_ino (nodes w)"
    from None \<open>resolve maxsymlinks (nodes w) sf = Some q\<close> assms(1)
    have w': "w' = w\<lparr>nodes := nodes w @ [(q, Reg ?k)], inodes := (inodes w)(?k := d)\<rparr>"
      by (simp add: write_file_def split: if_splits)
    have st: "os_stat w' x = (case resolve maxsymlinks (nodes w) x of
        None \<Rightarrow> None
      | Some y \<Rightarrow> if y = q then Some (Reg ?k) else map_of (nodes w) y)" for x
      unfolding w' by (simp add: os_stat_def resolve_append_new [OF None]
          map_of_append_new [OF None] del: map_of_append cong: option.case_cong)
    have sf: "os_stat w' sf = Some (Reg ?k)"
      using \<open>resolve maxsymlinks (nodes w) sf = Some q\<close> by (simp add: st)
    show ?thesis
    proof (cases "resolve maxsymlinks (nodes w) p")
      case None
      then have "os_stat w' p = None" "os_stat w p = None"
        by (simp_all add: st) (simp add: os_stat_def)
      then show ?thesis by (simp add: size_of_def stat_size_def)
    next
      case (Some y)
      with assms(2) sf st [of p] have yq: "y \<noteq> q" by auto
      with Some st [of p] have same: "os_stat w' p = os_stat w p"
        by (simp add: os_stat_def)
      show ?thesis
      proof (cases "os_stat w p")
        case None
        with same show ?thesis by (simp add: size_of_def stat_size_def)
      next
        case (Some nd)
        show ?thesis
        proof (cases nd)
          case (Reg j)
          with Some \<open>resolve maxsymlinks (nodes w) p = Some y\<close>
          have "map_of (nodes w) y = Some (Reg j)" by (simp add: os_stat_def)
          from fresh_ino_fresh [OF this] have "j \<noteq> ?k" by simp
          with same Some Reg show ?thesis
            by (simp add: size_of_def stat_size_def w')
        next
          case Dir
          with same Some show ?thesis by (simp add: size_of_def stat_size_def w')
        next
          case (Sym t)
          with same Some show ?thesis by (simp add: size_of_def stat_size_def)
        qed
      qed
    qed
  qed
qed

subsection \<open>Cache.trim and the budgets\<close>

text \<open>
  C2 (corrected). When \<open>trim\<close> returns normally: with a positive \<open>max_items\<close> the resident
  list has at most that many entries; with a positive \<open>max_cache_size\<close> the sizes of the
  resident blobs sum to at most that, provided no resident id names the state file
  (which \<open>save\<close> rewrites after the loops); and the list is what is left of the reconciled
  list (lost entries dropped, orphans put in front) after entries were popped from its
  front, so every eviction takes index 0 and the two bounds hold of one and the same list.
\<close>

theorem trim_enforces_budgets:
  assumes "trim c w = (Inr u, c', w')"
  shows "(0 < max_items c \<longrightarrow> int (length (state c')) \<le> max_items c)
       \<and> (0 < max_cache_size c
            \<and> list_all (\<lambda>f. os_stat w' (path c' f) \<noteq> os_stat w' (state_file c')) (state c')
          \<longrightarrow> int (total_size w' c') \<le> max_cache_size c)
       \<and> suffix (state c') (state (fst (snd (reconcile c w))))"
proof -
  from assms obtain c2 w2 c3 w3 c4 w4 w5 where
    rec: "reconcile c w = (Inr (), c2, w2)" and fl: "free_loop c2 w2 = (Inr (), c3, w3)"
    and sp: "size_phase c3 w3 = (Inr (), c4, w4)" and ip: "items_phase c4 w4 = (Inr (), c', w5)"
    and sv: "save c' w5 = (Inr (), w')"
    by (rule trim_returns_cases)
  have cfg2: "max_items c2 = max_items c" "max_cache_size c2 = max_cache_size c"
    using reconcile_config [of c w] rec by simp_all
  have cfg3: "max_items c3 = max_items c2" "max_cache_size c3 = max_cache_size c2"
    using evicts_config [OF free_loop_evicts [OF fl]] by simp_all
  from size_phase_evicts [OF sp] have e4: "evicts c3 w3 c4 w4" by auto
  have cfg4: "max_items c4 = max_items c3" "max_cache_size c4 = max_cache_size c3"
    using evicts_config [OF e4] by simp_all
  have e5: "evicts c4 w4 c' w5" using ip by (rule items_phase_evicts)
  have items: "int (length (state c')) \<le> max_items c" if "0 < max_items c"
    using items_phase_bound [OF ip] that cfg2 cfg3 cfg4 by simp
  have bytes: "int (total_size w' c') \<le> max_cache_size c"
    if pos: "0 < max_cache_size c"
    and apart: "list_all (\<lambda>f. os_stat w' (path c' f) \<noteq> os_stat w' (state_file c')) (state c')"
  proof -
    have "int (total_size w4 c4) \<le> max_cache_size c"
      using size_phase_bound [OF sp] pos cfg2 cfg3 by simp
    moreover have "total_size w5 c' \<le> total_size w4 c4"
      using e5 by (rule evicts_total_size)
    moreover have "total_size w' c' = total_size w5 c'"
    proof -
      have "size_of w' (path c' f) = size_of w5 (path c' f)" if "f \<in> set (state c')" for f
      proof -
        from apart that have "os_stat w' (path c' f) \<noteq> os_stat w' (state_file c')"
          by (simp add: list_all_iff)
        with sv show ?thesis unfolding save_def by (rule write_file_other)
      qed
      then show ?thesis by (simp add: total_size_def cong: map_cong)
    qed
    ultimately show ?thesis by simp
  qed
  have "suffix (state c') (state (fst (snd (reconcile c w))))"
    using trim_suffix [of c w] assms by simp
  with items bytes show ?thesis by blast
qed

definition cache_budget :: cache where
  "cache_budget = cache0\<lparr>max_cache_size := 60, max_items := 1\<rparr>"

theorem trim_enforces_budgets_witness:
  "fst (trim cache_budget world_orphan) = Inr ()
   \<and> state (fst (snd (reconcile cache_budget world_orphan))) = [''zz'', ''aa'', ''bb'']
   \<and> state (fst (snd (trim cache_budget world_orphan))) = [''bb'']
   \<and> 0 < max_items cache_budget \<and> 0 < max_cache_size cache_budget
   \<and> int (length (state (fst (snd (trim cache_budget world_orphan))))) \<le> max_items cache_budget
   \<and> int (total_size (snd (snd (trim cache_budget world_orphan)))
            (fst (snd (trim cache_budget world_orphan)))) \<le> max_cache_size cache_budget"
proof -
  let ?c = "fst (snd (trim cache_budget world_orphan))"
  let ?w = "snd (snd (trim cache_budget world_orphan))"
  have r: "fst (trim cache_budget world_orphan) = Inr ()" by code_simp
  then have t: "trim cache_budget world_orphan = (Inr (), ?c, ?w)"
    by (metis prod.collapse)
  have h1: "0 < max_items cache_budget" by (simp add: cache_budget_def)
  have h2: "0 < max_cache_size cache_budget" by (simp add: cache_budget_def)
  have h3: "list_all (\<lambda>f. os_stat ?w (path ?c f) \<noteq> os_stat ?w (state_file ?c)) (state ?c)"
    by code_simp
  have v1: "state (fst (snd (reconcile cache_budget world_orphan))) = [''zz'', ''aa'', ''bb'']"
    by code_simp
  have v2: "state ?c = [''bb'']" by code_simp
  from trim_enforces_budgets [OF t] h1 h2 h3 r v1 v2 show ?thesis by blast
qed

text \<open>The claim as stated fails in two ways. A budget may be negative (the options are
  plain integers): the cache is emptied and the sum 0 is still above the budget. And when
  the state file is itself resident, \<open>save\<close> rewrites it after the size loop: here the
  sizes 1 and 14 meet the budget 15 in the loop, and the rewritten state file has 19
  bytes when \<open>trim\<close> returns.\<close>

definition cache_negative :: cache where
  "cache_negative = cache0\<lparr>max_cache_size := - 1\<rparr>"

definition world_listed :: world where
  "world_listed =
     world0\<lparr>nodes := [(''/'', Dir), (''/c'', Dir), (''/c/state.json'', Reg 1), (''/c/aa'', Reg 2)],
            inodes := (\<lambda>i. if i = 1 then \<lparr>st_size = 14, contents = Doc [''state.json'']\<rparr>
                            else blob 1)\<rparr>"

definition cache_listed :: cache where
  "cache_listed = cache0\<lparr>state := [''state.json''], max_cache_size := 15\<rparr>"

theorem trim_budget_counterexample:
  "max_cache_size cache_negative \<noteq> 0
   \<and> fst (trim cache_negative world0) = Inr ()
   \<and> \<not> int (total_size (snd (snd (trim cache_negative world0)))
              (fst (snd (trim cache_negative world0)))) \<le> max_cache_size cache_negative
   \<and> max_cache_size cache_listed = 15
   \<and> fst (trim cache_listed world_listed) = Inr ()
   \<and> state (fst (snd (trim cache_listed world_listed))) = [''aa'', ''state.json'']
   \<and> total_size (snd (snd (trim cache_listed world_listed)))
         (fst (snd (trim cache_listed world_listed))) = 20"
  by code_simp

subsection \<open>Linking a file into the scratch directory\<close>

text \<open>\<open>os.link\<close> and \<open>CreateHardLinkW\<close>: a second name for the same inode. It fails when
  the source is missing or a directory, when the new name exists, when its directory does
  not, and across devices.\<close>

definition sys_link :: "path \<Rightarrow> path \<Rightarrow> world \<Rightarrow> unit result \<times> world" where
  "sys_link source link_name w =
     (case os_lstat w source of
        None \<Rightarrow> (Inl OSError, w)
      | Some Dir \<Rightarrow> (Inl OSError, w)
      | Some nd \<Rightarrow>
          (if os_lstat w link_name \<noteq> None \<or> \<not> os_path_isdir w (dirname link_name)
              \<or> st_dev w source \<noteq> st_dev w (dirname link_name)
           then (Inl OSError, w)
           else (Inr (), w\<lparr>nodes := nodes w @ [(link_name, nd)]\<rparr>)))"

definition os_link :: "path \<Rightarrow> path \<Rightarrow> world \<Rightarrow> unit result \<times> world" where
  "os_link source link_name w =
     (if win32 w then sys_link source link_name w else sys_link source link_name w)"

definition os_symlink :: "string \<Rightarrow> path \<Rightarrow> world \<Rightarrow> unit result \<times> world" where
  "os_symlink source link_name w =
     (if os_lstat w link_name \<noteq> None \<or> \<not> os_path_isdir w (dirname link_name)
      then (Inl OSError, w)
      else (Inr (), w\<lparr>nodes := nodes w @ [(link_name, Sym source)]\<rparr>))"

definition HARDLINK :: int where
  "HARDLINK = 1"

definition SYMLINK :: int where
  "SYMLINK = 2"

definition COPY :: int where
  "COPY = 3"

definition link_file :: "path \<Rightarrow> path \<Rightarrow> int \<Rightarrow> world \<Rightarrow> unit result \<times> world" where
  "link_file outfile infile action w =
     (let w0 = logging DEBUG (''Mapping '' @ infile @ '' to '' @ outfile) w
      in if action \<noteq> HARDLINK \<and> action \<noteq> SYMLINK \<and> action \<noteq> COPY then (Inl ValueError, w0)
         else if \<not> os_path_isfile w0 infile then (Inl MappingError, w0)
         else if os_path_isfile w0 outfile then (Inl MappingError, w0)
         else if action = COPY then shutil_copy infile outfile w0
         else if action = SYMLINK \<and> \<not> win32 w0 then os_symlink infile outfile w0
         else (case os_link infile outfile w0 of
                 (Inl e, w1) \<Rightarrow>
                   (if is_OSError e
                    then shutil_copy infile outfile
                           (logging WARN (''Failed to hardlink, failing back to copy '' @
                              infile @ '' to '' @ outfile) w1)
                    else (Inl e, w1))
               | (Inr u, w1) \<Rightarrow> (Inr (), w1)))"

subsection \<open>Directories\<close>

datatype errno = EEXIST | ENOENT

text \<open>\<open>os.mkdir\<close>; \<open>None\<close> is success. ENOENT stands for every failure other than the
  name being taken: the parent is missing or is not a directory.\<close>

definition os_mkdir :: "path \<Rightarrow> world \<Rightarrow> errno option \<times> world" where
  "os_mkdir p w =
     (if os_lstat w p \<noteq> None then (Some EEXIST, w)
      else if \<not> os_path_isdir w (dirname p) then (Some ENOENT, w)
      else (None, w\<lparr>nodes := nodes w @ [(p, Dir)]\<rparr>))"

text \<open>The \<open>head, tail\<close> that \<open>os.makedirs\<close> works with: \<open>split(name)\<close>, split once more
  when the name ends in a slash.\<close>

definition makedirs_parts :: "path \<Rightarrow> path \<times> string" where
  "makedirs_parts name =
     (case os_path_split name of
        (head, tail) \<Rightarrow> if tail = [] then os_path_split head else (head, tail))"

lemma os_path_split_length:
  "length (fst (os_path_split p)) + length (snd (os_path_split p)) \<le> length p"
proof -
  let ?h = "rev (dropWhile (\<lambda>c. c \<noteq> slash) (rev p))"
  let ?t = "rev (takeWhile (\<lambda>c. c \<noteq> slash) (rev p))"
  have a: "length ?h + length ?t = length p"
    by (metis add.commute length_append length_rev takeWhile_dropWhile_id)
  have b: "length (rstrip slash ?h) \<le> length ?h"
    by (simp add: rstrip_def length_dropWhile_le)
  have "length (fst (os_path_split p)) \<le> length ?h"
    using b by (simp add: os_path_split_def Let_def)
  moreover have "snd (os_path_split p) = ?t"
    by (simp add: os_path_split_def Let_def)
  ultimately show ?thesis using a by simp
qed

lemma makedirs_parts_shorter:
  assumes "snd (makedirs_parts name) \<noteq> []"
  shows "length (fst (makedirs_parts name)) < length name"
proof -
  obtain h t where s: "os_path_split name = (h, t)" by (cases "os_path_split name")
  have l1: "length h + length t \<le> length name" using os_path_split_length [of name] s by simp
  show ?thesis
  proof (cases "t = []")
    case False
    with s l1 show ?thesis by (cases t) (simp_all add: makedirs_parts_def)
  next
    case True
    obtain h2 t2 where s2: "os_path_split h = (h2, t2)" by (cases "os_path_split h")
    have "length h2 + length t2 \<le> length h" using os_path_split_length [of h] s2 by simp
    moreover from assms s True s2 have "t2 \<noteq> []" by (simp add: makedirs_parts_def)
    ultimately show ?thesis using s True s2 l1 by (cases t2) (simp_all add: makedirs_parts_def)
  qed
qed

text \<open>\<open>os.makedirs\<close>: create the missing parents first; an EEXIST from that recursive
  call is ignored; a name ending in \<open>/.\<close> is done once its parent exists.\<close>

function os_makedirs :: "path \<Rightarrow> world \<Rightarrow> errno option \<times> world" where
  "os_makedirs name w =
     (if fst (makedirs_parts name) \<noteq> [] \<and> snd (makedirs_parts name) \<noteq> []
         \<and> \<not> os_path_exists w (fst (makedirs_parts name))
      then (case os_makedirs (fst (makedirs_parts name)) w of
              (Some ENOENT, w1) \<Rightarrow> (Some ENOENT, w1)
            | (_, w1) \<Rightarrow>
                (if snd (makedirs_parts name) = ''.'' then (None, w1) else os_mkdir name w1))
      else os_mkdir name w)"
  by pat_completeness auto
termination
  by (relation "measure (\<lambda>(name, w). length name)") (auto intro: makedirs_parts_shorter)

text \<open>As the script calls it: any failure is an OSError.\<close>

definition makedirs :: "path \<Rightarrow> world \<Rightarrow> unit result \<times> world" where
  "makedirs name w =
     (case os_makedirs name w of
        (None, w1) \<Rightarrow> (Inr (), w1)
      | (Some e, w1) \<Rightarrow> (Inl OSError, w1))"

text \<open>\<open>tempfile.mkdtemp(prefix=pfx, dir=dir)\<close>: the candidate names are the
  environment's; a taken name is skipped, any other failure is raised, and running out
  of names is an IOError.\<close>

fun mkdtemp_names :: "path \<Rightarrow> string \<Rightarrow> string list \<Rightarrow> world \<Rightarrow> path result \<times> world" where
  "mkdtemp_names dir pfx [] w = (Inl IOError, w\<lparr>tmp_names := []\<rparr>)"
| "mkdtemp_names dir pfx (name # names) w =
     (case os_mkdir (os_path_join dir (pfx @ name)) w of
        (None, w1) \<Rightarrow> (Inr (os_path_join dir (pfx @ name)), w1\<lparr>tmp_names := names\<rparr>)
      | (Some EEXIST, w1) \<Rightarrow> mkdtemp_names dir pfx names w1
      | (Some ENOENT, w1) \<Rightarrow> (Inl OSError, w1\<lparr>tmp_names := names\<rparr>))"

definition mkdtemp :: "string \<Rightarrow> path option \<Rightarrow> world \<Rightarrow> path result \<times> world" where
  "mkdtemp pfx dir w =
     mkdtemp_names (case dir of None \<Rightarrow> tempdir w | Some d \<Rightarrow> d) pfx (tmp_names w) w"

text \<open>\<open>is_same_filesystem\<close>. The drive-letter test is the script's regular expression
  \<open>^[a-zA-Z]\:\\.*\<close> on the first three characters.\<close>

definition is_letter :: "char \<Rightarrow> bool" where
  "is_letter ch =
     ((of_char ch :: nat) \<in> {65..90} \<or> (of_char ch :: nat) \<in> {97..122})"

definition lower :: "char \<Rightarrow> char" where
  "lower ch = (if (of_char ch :: nat) \<in> {65..90} then char_of (of_char ch + (32::nat)) else ch)"

definition drive_path :: "path \<Rightarrow> bool" where
  "drive_path p =
     (case p of
        a # b # c # rest \<Rightarrow> is_letter a \<and> b = CHR '':'' \<and> c = CHR 0x5C
      | _ \<Rightarrow> False)"

definition is_same_filesystem :: "path \<Rightarrow> path \<Rightarrow> world \<Rightarrow> bool result" where
  "is_same_filesystem path1 path2 w =
     (if \<not> isabs path1 then Inl AssertionError
      else if \<not> isabs path2 then Inl AssertionError
      else if win32 w \<and> \<not> drive_path path1 then Inl AssertionError
      else if win32 w \<and> \<not> drive_path path2 then Inl AssertionError
      else if win32 w \<and> map lower (take 1 path1) \<noteq> map lower (take 1 path2) then Inr False
      else if os_path_exists w path1 \<and> os_path_exists w path2
           then Inr (st_dev w path1 = st_dev w path2)
           else Inl OSError)"

definition make_temp_dir :: "string \<Rightarrow> path \<Rightarrow> world \<Rightarrow> path result \<times> world" where
  "make_temp_dir pfx root_dir w =
     (case is_same_filesystem root_dir (tempdir w) w of
        Inl e \<Rightarrow> (Inl e, w)
      | Inr same \<Rightarrow> mkdtemp pfx (if \<not> same then Some (dirname root_dir) else None) w)"

subsection \<open>Permissions and removal of a tree\<close>

text \<open>\<open>os.chmod\<close> follows symbolic links and raises OSError when nothing is there.\<close>

definition os_chmod :: "path \<Rightarrow> world \<Rightarrow> unit result \<times> world" where
  "os_chmod p w = (if os_path_exists w p then (Inr (), w) else (Inl OSError, w))"

text \<open>\<open>_set_write_bit\<close>. Without \<open>os.lchmod\<close> the script tests \<open>S_ISLNK\<close> on the mode it
  has just computed: \<open>mode | 0200\<close> still carries the file type, so a symbolic link is
  skipped, but \<open>mode & 0500\<close> does not, so with \<open>read_only\<close> the link is passed to
  \<open>os.chmod\<close>, which follows it.\<close>

definition set_write_bit :: "path \<Rightarrow> bool \<Rightarrow> world \<Rightarrow> unit result \<times> world" where
  "set_write_bit p ro w =
     (case os_lstat w p of
        None \<Rightarrow> (Inl OSError, w)
      | Some nd \<Rightarrow>
          (if has_lchmod w then (Inr (), w)
           else if (case nd of Sym t \<Rightarrow> True | _ \<Rightarrow> False) \<and> \<not> ro
                then (Inr (), logging DEBUG (''Can't change +w bit on symlink '' @ p) w)
                else os_chmod p w))"

definition abspath :: "world \<Rightarrow> path \<Rightarrow> path" where
  "abspath w p = (if isabs p then p else os_path_join (getcwd w) p)"

text \<open>The paths of the tree below a directory. \<open>os.walk\<close> visits each of them once, as a
  file name or as a directory name; the model visits them in the order of the tree.\<close>

definition below :: "path \<Rightarrow> path \<Rightarrow> bool" where
  "below root p = startswith p (if root \<noteq> [] \<and> last root = slash then root else root @ [slash])"

definition walk :: "world \<Rightarrow> path \<Rightarrow> path list" where
  "walk w root = filter (below root) (map fst (nodes w))"

fun set_write_bits :: "path list \<Rightarrow> bool \<Rightarrow> world \<Rightarrow> unit result \<times> world" where
  "set_write_bits [] ro w = (Inr (), w)"
| "set_write_bits (p # ps) ro w =
     (case set_write_bit p ro w of
        (Inl e, w1) \<Rightarrow> (Inl e, w1)
      | (Inr u, w1) \<Rightarrow> set_write_bits ps ro w1)"

definition make_writable :: "path \<Rightarrow> bool \<Rightarrow> world \<Rightarrow> unit result \<times> world" where
  "make_writable root ro w =
     set_write_bits (walk w (abspath w root)) ro w"

text \<open>\<open>shutil.rmtree\<close>: the directory and everything below it goes. It raises OSError
  when the path is not a directory, and as often as the environment says
  (\<open>rmtree_failures\<close>: files still held open by a process that outlived the test).\<close>

definition shutil_rmtree :: "path \<Rightarrow> world \<Rightarrow> unit result \<times> world" where
  "shutil_rmtree root w =
     (if 0 < rmtree_failures w then (Inl OSError, w\<lparr>rmtree_failures := rmtree_failures w - 1\<rparr>)
      else (case os_lstat w root of
              Some Dir \<Rightarrow>
                (Inr (), w\<lparr>nodes := filter (\<lambda>(p, n). p \<noteq> root \<and> \<not> below root p) (nodes w)\<rparr>)
            | _ \<Rightarrow> (Inl OSError, w)))"

text \<open>The retry loop of \<open>rmtree\<close> on Windows, \<open>for i in range(3)\<close>: after the third
  failure the loop ends and nothing is raised.\<close>

fun rmtree_retry :: "path \<Rightarrow> nat list \<Rightarrow> world \<Rightarrow> unit result \<times> world" where
  "rmtree_retry root [] w = (Inr (), w)"
| "rmtree_retry root (i # rest) w =
     (case shutil_rmtree root w of
        (Inr u, w1) \<Rightarrow> (Inr (), w1)
      | (Inl e, w1) \<Rightarrow>
          (if is_OSError e
           then rmtree_retry root rest
                  (emit (Sleep ((i + 1) * 2))
                     (emit (Stderr (''The test has subprocess outliving it. Sleep '' @
                                     str_nat ((i + 1) * 2) @ '' seconds.'')) w1))
           else (Inl e, w1)))"

definition rmtree :: "path \<Rightarrow> world \<Rightarrow> unit result \<times> world" where
  "rmtree root w =
     (case make_writable root False w of
        (Inl e, w1) \<Rightarrow> (Inl e, w1)
      | (Inr u, w1) \<Rightarrow>
          (if win32 w1 then rmtree_retry root [0, 1, 2] w1 else shutil_rmtree root w1))"

text \<open>\<open>fix_python_path\<close>; \<open>out[0]\<close> of an empty command raises IndexError.\<close>

definition fix_python_path :: "string list \<Rightarrow> world \<Rightarrow> string list result" where
  "fix_python_path cmd w =
     (case cmd of
        [] \<Rightarrow> Inl IndexError
      | c0 # rest \<Rightarrow>
          (if c0 = ''python'' then Inr (executable w # rest)
           else if endswith c0 ''.py'' then Inr (executable w # c0 # rest)
           else Inr cmd))"

subsection \<open>Opening and closing the cache\<close>

text \<open>The \<open>if os.path.isfile(self.state_file)\<close> block of \<open>Cache.__init__\<close>: IOError and
  ValueError from \<open>json.load(open(...))\<close> are logged and the list stays empty.\<close>

definition load_state :: "cache \<Rightarrow> world \<Rightarrow> cache \<times> world" where
  "load_state c w =
     (if os_path_isfile w (state_file c)
      then (case read_file w (state_file c) of
              Inl e \<Rightarrow> (c, logging ERROR (''Broken state file '' @ STATE_FILE @ '', ignoring.'') w)
            | Inr d \<Rightarrow>
                (case contents d of
                   Doc xs \<Rightarrow> (c\<lparr>state := xs\<rparr>, w)
                 | _ \<Rightarrow> (c, logging ERROR (''Broken state file '' @ STATE_FILE @ '', ignoring.'') w)))
      else (c, w))"

definition Cache_init ::
  "path \<Rightarrow> string \<Rightarrow> int \<Rightarrow> int \<Rightarrow> int \<Rightarrow> world \<Rightarrow> unit result \<times> cache \<times> world" where
  "Cache_init dir rem mcs mfs mi w =
     (let c = \<lparr>cache_dir = dir, remote = rem, max_cache_size = mcs, min_free_space = mfs,
               max_items = mi, state_file = os_path_join dir STATE_FILE, state = [],
               files_added = [], files_removed = []\<rparr>
      in case (if \<not> os_path_isdir w dir then makedirs dir w else (Inr (), w)) of
           (Inl e, w1) \<Rightarrow> (Inl e, c, w1)
         | (Inr u, w1) \<Rightarrow> (case load_state c w1 of (c1, w2) \<Rightarrow> trim c1 w2))"

text \<open>\<open>Cache.__exit__\<close>: trim, then the statistics.\<close>

definition Cache_exit :: "cache \<Rightarrow> world \<Rightarrow> unit result \<times> cache \<times> world" where
  "Cache_exit c w =
     seq (trim c w) (\<lambda>u c1 w1.
       (Inr (), c1,
        logging DEBUG ''All files remove:''
       (logging INFO (''Size of files removed from cache: '' @
                        str_nat (sum_list (map snd (files_removed c1))))
       (logging INFO (''Number of files removed from cache: '' @
                        str_nat (length (files_removed c1)))
       (logging DEBUG ''All files added:''
       (logging INFO (''Size of files added to cache: '' @
                        str_nat (sum_list (map snd (files_added c1))))
       (logging INFO (''Number of files added to cache: '' @
                        str_nat (length (files_added c1))) w1)))))))"

subsection \<open>run_tha_test\<close>

text \<open>One round of the loop over \<open>manifest['files'].iteritems()\<close>.\<close>

definition map_file ::
  "string \<Rightarrow> properties \<Rightarrow> path \<Rightarrow> cache \<Rightarrow> world \<Rightarrow> unit result \<times> cache \<times> world" where
  "map_file filepath props outdir c w =
     (let outfile = os_path_join outdir filepath;
          outfiledir = dirname outfile
      in case (if \<not> os_path_isdir w outfiledir then makedirs outfiledir w else (Inr (), w)) of
           (Inl e, w1) \<Rightarrow> (Inl e, c, w1)
         | (Inr u, w1) \<Rightarrow>
             seq (case sha_1 props of
                    Some infile \<Rightarrow>
                      seq (retrieve c infile w1) (\<lambda>fetched c1 w2.
                        case link_file outfile (path c1 infile) HARDLINK w2 of
                          (r, w3) \<Rightarrow> (r, c1, w3))
                  | None \<Rightarrow>
                      (case link props of
                         Some target \<Rightarrow>
                           (case os_symlink target outfile w1 of (r, w2) \<Rightarrow> (r, c, w2))
                       | None \<Rightarrow> (Inl ValueError, c, w1)))
               (\<lambda>u c1 w2.
                  case mode props of
                    Some m \<Rightarrow> (case os_chmod outfile w2 of (r, w3) \<Rightarrow> (r, c1, w3))
                  | None \<Rightarrow> (Inr (), c1, w2)))"

fun map_files ::
  "(string \<times> properties) list \<Rightarrow> path \<Rightarrow> cache \<Rightarrow> world \<Rightarrow> unit result \<times> cache \<times> world" where
  "map_files [] outdir c w = (Inr (), c, w)"
| "map_files ((filepath, props) # rest) outdir c w =
     seq (map_file filepath props outdir c w) (\<lambda>u c1 w1. map_files rest outdir c1 w1)"

text \<open>\<open>subprocess.call(cmd, cwd=cwd)\<close>: the call is recorded, and the environment says
  whether the command starts at all (\<open>None\<close> is OSError) and, if so, its exit code and the
  tree it leaves.\<close>

definition subprocess_call :: "string list \<Rightarrow> path \<Rightarrow> world \<Rightarrow> int result \<times> world" where
  "subprocess_call cmd cwd w =
     (case child w cmd cwd (nodes w) of
        None \<Rightarrow> (Inl OSError, emit (Spawn cmd cwd) w)
      | Some (rc, ns) \<Rightarrow> (Inr rc, (emit (Spawn cmd cwd) w)\<lparr>nodes := ns\<rparr>))"

definition os_path_sep :: char where
  "os_path_sep = slash"

text \<open>The body of the \<open>try\<close> of \<open>run_tha_test\<close>; \<open>cmd[0]\<close> of an empty command raises
  IndexError.\<close>

definition run_guarded ::
  "(string \<times> properties) list \<Rightarrow> string list \<Rightarrow> manifest \<Rightarrow> path \<Rightarrow> cache \<Rightarrow> world \<Rightarrow>
   int result \<times> cache \<times> world" where
  "run_guarded fs cmd0 m outdir c w =
     seq (map_files fs outdir c w) (\<lambda>u c1 w1.
       (let cwd = os_path_join outdir (case relative_cwd m of None \<Rightarrow> [] | Some d \<Rightarrow> d)
        in case (if \<not> os_path_isdir w1 cwd then makedirs cwd w1 else (Inr (), w1)) of
             (Inl e, w2) \<Rightarrow> (Inl e, c1, w2)
           | (Inr u, w2) \<Rightarrow>
               (case (if read_only m = Some True then make_writable outdir True w2
                      else (Inr (), w2)) of
                  (Inl e, w3) \<Rightarrow> (Inl e, c1, w3)
                | (Inr u, w3) \<Rightarrow>
                    (case cmd0 of
                       [] \<Rightarrow> (Inl IndexError, c1, w3)
                     | c0 # rest \<Rightarrow>
                         (case fix_python_path
                                 (map (\<lambda>ch. if ch = slash then os_path_sep else ch) c0 # rest)
                                 w3 of
                            Inl e \<Rightarrow> (Inl e, c1, w3)
                          | Inr cmd \<Rightarrow>
                              (case subprocess_call cmd cwd
                                      (logging INFO (''Running '' @ commas cmd @ '', cwd='' @ cwd) w3) of
                                 (Inl e, w4) \<Rightarrow>
                                   (Inl e, c1,
                                    if is_OSError e
                                    then emit (Stderr (''Failed to run '' @ commas cmd @
                                                        ''; cwd='' @ cwd)) w4
                                    else w4)
                               | (Inr rc, w4) \<Rightarrow> (Inr rc, c1, w4)))))))"

text \<open>The body of the \<open>with\<close>: the scratch directory is made first, the two tests of the
  manifest return 1, and only then comes the \<open>try ... finally: rmtree(outdir)\<close>.\<close>

definition run_in_cache :: "manifest \<Rightarrow> cache \<Rightarrow> world \<Rightarrow> int result \<times> cache \<times> world" where
  "run_in_cache m c w =
     (case make_temp_dir ''run_tha_test'' (cache_dir c) w of
        (Inl e, w1) \<Rightarrow> (Inl e, c, w1)
      | (Inr outdir, w1) \<Rightarrow>
          (case files m of
             None \<Rightarrow> (Inr 1, c, emit (Stderr ''No file to map'') w1)
           | Some fs \<Rightarrow>
               (case command m of
                  None \<Rightarrow> (Inr 1, c, emit (Stderr ''No command to map run'') w1)
                | Some cmd0 \<Rightarrow>
                    (case run_guarded fs cmd0 m outdir c w1 of
                       (r, c1, w2) \<Rightarrow>
                         (case rmtree outdir w2 of
                            (Inl e, w3) \<Rightarrow> (Inl e, c1, w3)
                          | (Inr u, w3) \<Rightarrow> (r, c1, w3))))))"

text \<open>\<open>with Cache(...) as cache\<close>: \<open>__exit__\<close> runs whatever the body did, and its own
  exception replaces the body's outcome.\<close>

definition run_tha_test ::
  "manifest \<Rightarrow> path \<Rightarrow> string \<Rightarrow> int \<Rightarrow> int \<Rightarrow> int \<Rightarrow> world \<Rightarrow> int result \<times> world" where
  "run_tha_test m dir rem mcs mfs mi w =
     (case Cache_init dir rem mcs mfs mi w of
        (Inl e, c, w1) \<Rightarrow> (Inl e, w1)
      | (Inr u, c, w1) \<Rightarrow>
          (case run_in_cache m c w1 of
             (r, c1, w2) \<Rightarrow>
               (case Cache_exit c1 w2 of
                  (Inl e, c2, w3) \<Rightarrow> (Inl e, w3)
                | (Inr u, c2, w3) \<Rightarrow> (r, w3))))"

subsection \<open>main\<close>

text \<open>The parsed command line. \<open>parser.error\<close> prints and exits with status 2.\<close>

record options =
  opt_verbose :: nat
  opt_no_run :: bool
  opt_manifest :: "string option"
  opt_hash :: "string option"
  opt_remote :: "string option"
  opt_cache :: string
  opt_max_cache_size :: int
  opt_min_free_space :: int
  opt_max_items :: int
  opt_args :: "string list"

definition truthy :: "string option \<Rightarrow> bool" where
  "truthy s = (case s of None \<Rightarrow> False | Some x \<Rightarrow> x \<noteq> [])"

definition parser_error :: "string \<Rightarrow> world \<Rightarrow> int result \<times> world" where
  "parser_error msg w = (Inl SystemExit, emit (Stderr msg) w)"

definition main :: "options \<Rightarrow> world \<Rightarrow> int result \<times> world" where
  "main opts w =
     (if truthy (opt_manifest opts) = truthy (opt_hash opts)
      then parser_error ''One and only one of --manifest or --hash is required.'' w
      else if \<not> truthy (opt_remote opts) then parser_error ''--remote is required.'' w
      else if opt_args opts \<noteq> [] then parser_error ''Unsupported args'' w
      else
        (case (opt_remote opts,
               if truthy (opt_hash opts)
               then map_option (\<lambda>h. rstrip slash (case opt_remote opts of None \<Rightarrow> [] | Some r \<Rightarrow> r)
                                       @ ''/'' @ h) (opt_hash opts)
               else opt_manifest opts) of
           (Some rem, Some ref) \<Rightarrow>
             (case manifest_at w ref of
                Unreachable \<Rightarrow> parser_error (''Failed to read manifest '' @ ref) w
              | NotJson \<Rightarrow> (Inl ValueError, w)
              | Loaded m \<Rightarrow>
                  run_tha_test m (abspath w (opt_cache opts)) rem (opt_max_cache_size opts)
                    (opt_min_free_space opts) (opt_max_items opts) w)
         | _ \<Rightarrow> parser_error ''--remote is required.'' w))"

subsection \<open>link_file and MappingError\<close>

lemma os_stat_logging [simp]: "os_stat (logging l m w) p = os_stat w p"
  by (simp add: logging_def emit_def)

lemma isfile_logging [simp]: "os_path_isfile (logging l m w) p = os_path_isfile w p"
  by (simp add: os_path_isfile_def)

lemma write_file_error: "fst (write_file p d w) = Inl e \<Longrightarrow> e = IOError"
  by (auto simp: write_file_def split: option.splits node.splits if_splits)

lemma shutil_copy_error:
  "fst (shutil_copy src dst w) = Inl e \<Longrightarrow> e = IOError \<or> e = ShutilError"
  by (auto simp: shutil_copy_def read_file_def Let_def dest: write_file_error
        split: option.splits node.splits if_splits sum.splits)

lemma os_symlink_error: "fst (os_symlink s d w) = Inl e \<Longrightarrow> e = OSError"
  by (auto simp: os_symlink_def split: if_splits)

lemma os_link_error: "fst (os_link s d w) = Inl e \<Longrightarrow> e = OSError"
  by (auto simp: os_link_def sys_link_def split: option.splits node.splits if_splits)

text \<open>
  C5 (corrected). For one of the three mapping actions, \<open>link_file\<close> raises MappingError
  exactly when the source is not a regular file or the destination already is one, and
  then the world is as before the call but for the debug line: nothing is created or
  modified. Any other action raises ValueError before either test.
\<close>

theorem link_file_mapping_error:
  assumes "action = HARDLINK \<or> action = SYMLINK \<or> action = COPY"
  shows "((fst (link_file outfile infile action w) = Inl MappingError)
           = (\<not> os_path_isfile w infile \<or> os_path_isfile w outfile))
       \<and> (\<not> os_path_isfile w infile \<or> os_path_isfile w outfile \<longrightarrow>
            snd (link_file outfile infile action w)
              = logging DEBUG (''Mapping '' @ infile @ '' to '' @ outfile) w)"
proof (cases "\<not> os_path_isfile w infile \<or> os_path_isfile w outfile")
  case True
  with assms show ?thesis by (auto simp: link_file_def Let_def)
next
  case False
  let ?w0 = "logging DEBUG (''Mapping '' @ infile @ '' to '' @ outfile) w"
  have "fst (link_file outfile infile action w) \<noteq> Inl MappingError"
  proof (cases "action = COPY")
    case True
    with False shutil_copy_error [of infile outfile ?w0 MappingError] show ?thesis
      by (auto simp: link_file_def Let_def COPY_def HARDLINK_def SYMLINK_def)
  next
    case nc: False
    show ?thesis
    proof (cases "action = SYMLINK \<and> \<not> win32 ?w0")
      case True
      with False nc os_symlink_error [of infile outfile ?w0 MappingError] show ?thesis
        by (auto simp: link_file_def Let_def COPY_def HARDLINK_def SYMLINK_def)
    next
      case ns: False
      obtain r w1 where l: "os_link infile outfile ?w0 = (r, w1)"
        by (cases "os_link infile outfile ?w0")
      show ?thesis
      proof (cases r)
        case (Inr u)
        with False nc ns l assms show ?thesis
          by (auto simp: link_file_def Let_def)
      next
        case (Inl e)
        with l os_link_error [of infile outfile ?w0 e] have "e = OSError" by simp
        with Inl False nc ns l assms
          shutil_copy_error [of infile outfile
            "logging WARN (''Failed to hardlink, failing back to copy '' @
                              infile @ '' to '' @ outfile) w1" MappingError]
        show ?thesis
          by (auto simp: link_file_def Let_def is_OSError_def)
      qed
    qed
  qed
  with False show ?thesis by simp
qed


theorem link_file_mapping_error_witness:
  "\<not> os_path_isfile world0 ''/c/nope''
   \<and> fst (link_file ''/tmp/o'' ''/c/nope'' HARDLINK world0) = Inl MappingError
   \<and> snd (link_file ''/tmp/o'' ''/c/nope'' HARDLINK world0)
       = logging DEBUG (''Mapping '' @ ''/c/nope'' @ '' to '' @ ''/tmp/o'') world0
   \<and> os_path_isfile world0 ''/c/aa'' \<and> \<not> os_path_isfile world0 ''/tmp/o''
   \<and> fst (link_file ''/tmp/o'' ''/c/aa'' HARDLINK world0) \<noteq> Inl MappingError
   \<and> fst (link_file ''/tmp/o'' ''/c/aa'' HARDLINK world0) = Inr ()"
proof -
  have a: "HARDLINK = HARDLINK \<or> HARDLINK = SYMLINK \<or> HARDLINK = COPY" by simp
  have h1: "\<not> os_path_isfile world0 ''/c/nope''" by code_simp
  have h2: "os_path_isfile world0 ''/c/aa''" by code_simp
  have h3: "\<not> os_path_isfile world0 ''/tmp/o''" by code_simp
  have v: "fst (link_file ''/tmp/o'' ''/c/aa'' HARDLINK world0) = Inr ()" by code_simp
  from link_file_mapping_error [OF a, of "''/tmp/o''" "''/c/nope''" world0] h1
  have b: "fst (link_file ''/tmp/o'' ''/c/nope'' HARDLINK world0) = Inl MappingError"
    and c: "snd (link_file ''/tmp/o'' ''/c/nope'' HARDLINK world0)
       = logging DEBUG (''Mapping '' @ ''/c/nope'' @ '' to '' @ ''/tmp/o'') world0"
    by blast+
  from link_file_mapping_error [OF a, of "''/tmp/o''" "''/c/aa''" world0] h2 h3
  have d: "fst (link_file ''/tmp/o'' ''/c/aa'' HARDLINK world0) \<noteq> Inl MappingError"
    by blast
  from h1 h2 h3 v b c d show ?thesis by blast
qed

text \<open>The claim as stated fails for an action that is none of the three: the ValueError
  comes first, whether or not the source exists.\<close>

theorem link_file_unknown_action_counterexample:
  "\<not> os_path_isfile world0 ''/c/nope''
   \<and> fst (link_file ''/tmp/o'' ''/c/nope'' 0 world0) = Inl ValueError
   \<and> fst (link_file ''/tmp/o'' ''/c/nope'' 0 world0) \<noteq> Inl MappingError"
  by code_simp

subsection \<open>How a regular file is placed\<close>

text \<open>The chain as the specification words it: hard link, else symbolic link, else copy,
  the first that succeeds winning.\<close>

definition spec_link_chain :: "path \<Rightarrow> path \<Rightarrow> world \<Rightarrow> unit result \<times> world" where
  "spec_link_chain outfile infile w =
     (case os_link infile outfile w of
        (Inr u, w1) \<Rightarrow> (Inr (), w1)
      | (Inl e, w1) \<Rightarrow>
          (case os_symlink infile outfile w1 of
             (Inr u, w2) \<Rightarrow> (Inr (), w2)
           | (Inl e, w2) \<Rightarrow> shutil_copy infile outfile w2))"

text \<open>A world in which \<open>/tmp\<close> is on another device than the cache.\<close>

definition world_far :: world where
  "world_far = world0\<lparr>st_dev := (\<lambda>p. if startswith p ''/tmp'' then 2 else 1)\<rparr>"

lemma lstat_file_stat: "os_lstat w p = Some (Reg i) \<Longrightarrow> os_stat w p = Some (Reg i)"
  by (simp add: os_lstat_def os_stat_def maxsymlinks_def eval_nat_numeral)

lemma lstat_none_stat: "os_lstat w p = None \<Longrightarrow> os_stat w p = None"
  by (simp add: os_lstat_def os_stat_def maxsymlinks_def eval_nat_numeral)

lemma os_lstat_logging [simp]: "os_lstat (logging l m w) p = os_lstat w p"
  by (simp add: os_lstat_def logging_def emit_def)

lemma isdir_logging [simp]: "os_path_isdir (logging l m w) p = os_path_isdir w p"
  by (simp add: os_path_isdir_def)

lemma fields_logging [simp]:
  "nodes (logging l m w) = nodes w" "inodes (logging l m w) = inodes w"
  "st_dev (logging l m w) = st_dev w" "win32 (logging l m w) = win32 w"
  by (simp_all add: logging_def emit_def)

subsection \<open>What trim can unlink\<close>

text \<open>Two names without a slash that are joined to the same directory give the same path
  only when they are the same name. The resident ids of a cache are proper when none of
  them contains a slash or is the name of the state file; the path of a proper id is then
  not the path of the state file.\<close>

definition proper_ids :: "string list \<Rightarrow> bool" where
  "proper_ids xs = list_all (\<lambda>f. slash \<notin> set f \<and> f \<noteq> STATE_FILE) xs"




lemma proper_ids_subset: "set ys \<subseteq> set xs \<Longrightarrow> proper_ids xs \<Longrightarrow> proper_ids ys"
  by (auto simp: proper_ids_def list_all_iff)























text \<open>\<open>retrieve\<close> unlinks nothing: a path that is there before the call is there after
  it, whatever the call does.\<close>

lemma os_lstat_emit [simp]: "os_lstat (emit e w) q = os_lstat w q"
  by (simp add: os_lstat_def emit_def)




lemma finally_save:
  assumes "retrieve c item w =
     (case save c1 w1 of (Inl e, w2) \<Rightarrow> (Inl e, c1, w2) | (Inr u, w2) \<Rightarrow> (r, c1, w2))"
  shows "snd (snd (retrieve c item w)) = snd (save c1 w1)"
    and "fst (snd (retrieve c item w)) = c1"
  unfolding assms by (cases "save c1 w1"; auto split: sum.splits)+

lemma retrieve_steps:
  obtains (rejected) "slash \<in> set item" "retrieve c item w = (Inl AssertionError, c, w)"
  | (saved) c1 w1 where "slash \<notin> set item"
      "snd (snd (retrieve c item w)) = snd (save c1 w1)" "fst (snd (retrieve c item w)) = c1"
      "cache_dir c1 = cache_dir c" "state_file c1 = state_file c"
      "w1 = w \<or> w1 = snd (download_or_copy (rstrip slash (remote c) @ ''/'' @ item) (path c item) w)
       \<or> w1 = logging ERROR (''File, '' @ item @ '', not placed in cache'')
                (snd (download_or_copy (rstrip slash (remote c) @ ''/'' @ item) (path c item) w))"
proof (cases "slash \<in> set item")
  case True
  with rejected show ?thesis by (simp add: retrieve_def)
next
  case ns: False
  let ?dl = "download_or_copy (rstrip slash (remote c) @ ''/'' @ item) (path c item) w"
  show ?thesis
  proof (cases "list_index (state c) item")
    case (Some k)
    with ns have
      "retrieve c item w =
         (case save (c\<lparr>state := list_pop k (state c) @ [item]\<rparr>) w of
            (Inl e, w2) \<Rightarrow> (Inl e, c\<lparr>state := list_pop k (state c) @ [item]\<rparr>, w2)
          | (Inr u, w2) \<Rightarrow> (Inr False, c\<lparr>state := list_pop k (state c) @ [item]\<rparr>, w2))"
      by (simp add: retrieve_def)
    from finally_save [OF this] ns
    show ?thesis by (intro saved [of "c\<lparr>state := list_pop k (state c) @ [item]\<rparr>" w]) simp_all
  next
    case None
    obtain r1 w1 where dl: "?dl = (r1, w1)" by (cases ?dl)
    show ?thesis
    proof (cases r1)
      case (Inl e)
      with ns None dl have
        "retrieve c item w =
           (case save c w1 of (Inl e', w2) \<Rightarrow> (Inl e', c, w2) | (Inr u, w2) \<Rightarrow> (Inl e, c, w2))"
        by (simp add: retrieve_def Let_def)
      from finally_save [OF this] ns dl
      show ?thesis by (intro saved [of c w1]) simp_all
    next
      case (Inr u)
      show ?thesis
      proof (cases "os_path_exists w1 (path c item)")
        case False
        let ?w = "logging ERROR (''File, '' @ item @ '', not placed in cache'') w1"
        from False ns None dl Inr have
          "retrieve c item w =
             (case save c ?w of (Inl e', w2) \<Rightarrow> (Inl e', c, w2) | (Inr u, w2) \<Rightarrow> (Inr True, c, w2))"
          by (simp add: retrieve_def Let_def)
        from finally_save [OF this] ns dl
        show ?thesis by (intro saved [of c ?w]) simp_all
      next
        case True
        show ?thesis
        proof (cases "stat_size w1 (path c item)")
          case nosize: None
          let ?c = "c\<lparr>state := state c @ [item]\<rparr>"
          from True nosize ns None dl Inr have
            "retrieve c item w =
               (case save ?c w1 of (Inl e', w2) \<Rightarrow> (Inl e', ?c, w2)
                | (Inr u, w2) \<Rightarrow> (Inl OSError, ?c, w2))"
            by (simp add: retrieve_def Let_def)
          from finally_save [OF this] ns dl
          show ?thesis by (intro saved [of ?c w1]) simp_all
        next
          case (Some sz)
          let ?c = "c\<lparr>state := state c @ [item],
                      files_added := files_added c @ [(path c item, sz)]\<rparr>"
          from True Some ns None dl Inr have
            "retrieve c item w =
               (case save ?c w1 of (Inl e', w2) \<Rightarrow> (Inl e', ?c, w2)
                | (Inr u, w2) \<Rightarrow> (Inr True, ?c, w2))"
            by (simp add: retrieve_def Let_def)
          from finally_save [OF this] ns dl
          show ?thesis by (intro saved [of ?c w1]) simp_all
        qed
      qed
    qed
  qed
qed




subsection \<open>The state file is not a blob\<close>






subsection \<open>No duplicates in the resident list\<close>









subsection \<open>What the assertion of retrieve is worth\<close>

text \<open>The fetches in the trace after \<open>retrieve\<close>: those that were there, and at most one
  more, whose destination is \<open>path(item)\<close>.\<close>

lemma write_file_trace [simp]: "trace (snd (write_file p d w)) = trace w"
  by (auto simp: write_file_def split: option.splits node.splits)

lemma save_trace [simp]: "trace (snd (save c w)) = trace w"
  by (simp add: save_def)

lemma shutil_copy_trace [simp]: "trace (snd (shutil_copy src dst w)) = trace w"
  by (simp add: shutil_copy_def Let_def split: sum.splits)

lemma download_or_copy_fetches:
  assumes "Fetch s t \<in> set (trace (snd (download_or_copy u d w)))"
  shows "Fetch s t \<in> set (trace w) \<or> (s = u \<and> t = d)"
proof (cases "is_url u")
  case False
  with assms show ?thesis by (auto simp: download_or_copy_def Let_def emit_def)
next
  case True
  obtain r w1 where ur: "urlretrieve u d (emit (Fetch u d) w) = (r, w1)"
    by (cases "urlretrieve u d (emit (Fetch u d) w)")
  have "trace (snd (urlretrieve u d (emit (Fetch u d) w))) = trace w @ [Fetch u d]"
    by (simp add: urlretrieve_def emit_def split: option.splits)
  with ur have t1: "trace w1 = trace w @ [Fetch u d]" by simp
  from True ur assms t1 show ?thesis
    by (cases r) (auto simp: download_or_copy_def Let_def logging_def emit_def split: if_splits)
qed

lemma retrieve_fetches:
  assumes "Fetch s t \<in> set (trace (snd (snd (retrieve c item w))))"
  shows "Fetch s t \<in> set (trace w) \<or> t = path c item"
proof (cases item c w rule: retrieve_steps)
  case rejected
  with assms show ?thesis by simp
next
  case (saved c1 w1)
  from assms saved(2) have f: "Fetch s t \<in> set (trace w1)" by simp
  let ?dl = "download_or_copy (rstrip slash (remote c) @ ''/'' @ item) (path c item) w"
  from saved(6) f have "Fetch s t \<in> set (trace w) \<or> Fetch s t \<in> set (trace (snd ?dl))"
    by (auto simp: logging_def emit_def)
  with download_or_copy_fetches [of s t _ "path c item" w] show ?thesis by blast
qed

lemma retrieve_no_assertion:
  assumes ns: "slash \<notin> set item"
  shows "fst (retrieve c item w) \<noteq> Inl AssertionError"
proof -
  have sv: "fst (save c1 w1) \<noteq> Inl AssertionError" for c1 w1
    by (auto simp: save_def write_file_def split: option.splits node.splits)
  have dl: "fst (download_or_copy u d w) \<noteq> Inl AssertionError" for u d
    by (auto simp: download_or_copy_def urlretrieve_def shutil_copy_def write_file_def
          read_file_def Let_def emit_def split: option.splits node.splits prod.splits sum.splits)
  show ?thesis
    using ns sv dl
    by (auto simp: retrieve_def Let_def split: option.splits prod.splits sum.splits)
       (metis fst_conv)+
qed

text \<open>
  C9 (corrected). An id that contains a slash fails the assertion, and the cache, the
  tree and the trace are as before the call. An id without a slash passes. Where
  \<open>os.path\<close> is \<open>posixpath\<close> (a world that is not Windows), the only fetch \<open>retrieve\<close> then
  adds to the trace has \<open>path(item)\<close> as its destination, and that path is the cache
  directory followed by one component, inside the directory, unless the id is empty, \<open>.\<close>
  or \<open>..\<close>.
\<close>

theorem retrieve_assertion_and_destination:
  "(slash \<in> set item \<longrightarrow> retrieve c item w = (Inl AssertionError, c, w))
   \<and> (slash \<notin> set item \<longrightarrow> fst (retrieve c item w) \<noteq> Inl AssertionError)
   \<and> (\<not> win32 w \<and> slash \<notin> set item \<and> item \<notin> {[], ''.'', ''..''} \<and> cache_dir c \<noteq> []
        \<and> Fetch src dst \<in> set (trace (snd (snd (retrieve c item w))))
        \<and> Fetch src dst \<notin> set (trace w) \<longrightarrow>
          dst = path c item \<and> inside_dir (cache_dir c) dst)"
proof -
  have a: "retrieve c item w = (Inl AssertionError, c, w)" if "slash \<in> set item"
    using that by (simp add: retrieve_def)
  have b: "inside_dir (cache_dir c) (path c item)"
    if "slash \<notin> set item" "item \<notin> {[], ''.'', ''..''}" "cache_dir c \<noteq> []"
    using that by (auto simp: inside_dir_def path_def child_name_join)
  have d: "dst = path c item"
    if "Fetch src dst \<in> set (trace (snd (snd (retrieve c item w))))"
       "Fetch src dst \<notin> set (trace w)"
    using retrieve_fetches [OF that(1)] that(2) by simp
  from a b d retrieve_no_assertion [of item c w] show ?thesis by blast
qed

theorem retrieve_assertion_and_destination_witness:
  "slash \<in> set ''d/x''
   \<and> retrieve cache0 ''d/x'' world0 = (Inl AssertionError, cache0, world0)
   \<and> \<not> win32 world0 \<and> slash \<notin> set ''cc'' \<and> ''cc'' \<notin> {[], ''.'', ''..''}
   \<and> cache_dir cache0 \<noteq> []
   \<and> fst (retrieve cache0 ''cc'' world0) = Inr True
   \<and> Fetch ''/r/cc'' ''/c/cc'' \<in> set (trace (snd (snd (retrieve cache0 ''cc'' world0))))
   \<and> Fetch ''/r/cc'' ''/c/cc'' \<notin> set (trace world0)
   \<and> ''/c/cc'' = path cache0 ''cc''
   \<and> inside_dir (cache_dir cache0) ''/c/cc''"
proof -
  have h1: "slash \<in> set ''d/x''" by (simp add: slash_def)
  have h2: "slash \<notin> set ''cc''" by (simp add: slash_def)
  have h3: "''cc'' \<notin> {[], ''.'', ''..''}" by simp
  have h4: "cache_dir cache0 \<noteq> []" by (simp add: cache0_def)
  have h5: "\<not> win32 world0" by (simp add: world0_def)
  have h6: "Fetch ''/r/cc'' ''/c/cc'' \<in> set (trace (snd (snd (retrieve cache0 ''cc'' world0))))"
    by code_simp
  have h7: "Fetch ''/r/cc'' ''/c/cc'' \<notin> set (trace world0)" by (simp add: world0_def)
  have v1: "fst (retrieve cache0 ''cc'' world0) = Inr True" by code_simp
  from retrieve_assertion_and_destination [of "''d/x''" cache0 world0] h1
  have a: "retrieve cache0 ''d/x'' world0 = (Inl AssertionError, cache0, world0)" by blast
  from retrieve_assertion_and_destination [of "''cc''" cache0 world0 "''/r/cc''" "''/c/cc''"]
    h2 h3 h4 h5 h6 h7
  have b: "''/c/cc'' = path cache0 ''cc''" "inside_dir (cache_dir cache0) ''/c/cc''" by blast+
  from a b h1 h2 h3 h4 h5 h6 h7 v1 show ?thesis by blast
qed

text \<open>The claim as stated fails in its last part: the id \<open>..\<close> has no slash, passes the
  assertion, and the fetch is handed the parent of the cache directory as destination.\<close>

theorem retrieve_dotdot_counterexample:
  "\<not> win32 world0 \<and> slash \<notin> set ''..''
   \<and> fst (retrieve cache_http ''..'' world0) = Inr True
   \<and> path cache_http ''..'' = ''/c/..''
   \<and> Fetch ''http://h/..'' ''/c/..'' \<in> set (trace (snd (snd (retrieve cache_http ''..'' world0))))
   \<and> \<not> inside_dir (cache_dir cache_http) (path cache_http ''..'')"
  by code_simp

end
